theory Spec2Isabelle
  imports Complex_Main "HOL-Library.Multiset"
begin

section \<open>The source graph\<close>

text \<open>
  The emitter reads a graph of type nodes built by the host compiler. Nodes are compared
  by reference (\<open>Set<Type>\<close>, \<open>Map<NamespaceType, string>\<close>) and models may refer to
  themselves through their properties, so models live in a store: a model is named by
  its position in the list \<open>models\<close> of the program. Namespaces contain their
  interfaces and their nested namespaces, so they are a tree; every node of the tree
  carries the number that stands for its identity.
\<close>

text \<open>The kinds of type node other than \<open>"Model"\<close> (the compiler's \<open>Type["kind"]\<close>).\<close>

datatype other_kind =
  KArray | KBoolean | KEnum | KInterface | KNamespace | KNumber | KOperation
  | KString | KTemplateParameter | KTuple | KUnion

fun kind_name :: "other_kind \<Rightarrow> string" where
  "kind_name KArray = ''Array''"
| "kind_name KBoolean = ''Boolean''"
| "kind_name KEnum = ''Enum''"
| "kind_name KInterface = ''Interface''"
| "kind_name KNamespace = ''Namespace''"
| "kind_name KNumber = ''Number''"
| "kind_name KOperation = ''Operation''"
| "kind_name KString = ''String''"
| "kind_name KTemplateParameter = ''TemplateParameter''"
| "kind_name KTuple = ''Tuple''"
| "kind_name KUnion = ''Union''"

text \<open>A reference to a type node: a model of the store, or a node of another kind.\<close>

datatype cadl_type = ModelT nat | OtherT other_kind

text \<open>
  A JavaScript number: the decorator argument \<open>fieldIndex\<close>. Every finite double is a
  rational; the three other values are kept apart.
\<close>

datatype js_number = NaN | PosInfinity | NegInfinity | Finite rat

record model_property =
  prop_id :: nat
  prop_name :: string
  prop_type :: cadl_type

record model_type =
  model_name :: string
  model_namespace :: "string option"
  model_properties :: "model_property list"
  model_templateArguments :: "cadl_type list option"

record operation =
  op_name :: string
  op_parameters :: model_type
  op_returnType :: cadl_type

record interface =
  iface_id :: nat
  iface_name :: string
  iface_operations :: "operation list"

datatype namespace =
  Namespace (ns_id: nat) (ns_name: string) (ns_interfaces: "interface list")
    (ns_namespaces: "namespace list")

subsection \<open>Diagnostics\<close>

datatype diag_target = OnType cadl_type | OnModel model_type | OnProperty nat

datatype format_value = Str string | StringOf js_number

record diagnostic =
  diag_code :: string
  diag_messageId :: "string option"
  diag_format :: "(string \<times> format_value) list"
  diag_target :: diag_target

subsection \<open>The program\<close>

text \<open>
  \<open>intrinsics\<close> stands for the compiler's \<open>isIntrinsic\<close> and \<open>getIntrinsicModelName\<close>;
  \<open>packages\<close>, \<open>services\<close> and \<open>fieldIndices\<close> are the state maps under \<open>packageKey\<close>,
  \<open>serviceKey\<close> and \<open>fieldIndexKey\<close>; \<open>hasError\<close> is the compiler's \<open>program.hasError()\<close>,
  read on the diagnostics reported so far.
\<close>

record program =
  models :: "model_type list"
  intrinsics :: "cadl_type \<Rightarrow> string option"
  packages :: "(namespace \<times> string) list"
  services :: "nat set"
  fieldIndices :: "nat \<Rightarrow> js_number option"
  diagnostics :: "diagnostic list"
  noEmit :: bool
  hasError :: "diagnostic list \<Rightarrow> bool"

definition lookup_model :: "program \<Rightarrow> nat \<Rightarrow> model_type option" where
  "lookup_model p i = (if i < length (models p) then Some (models p ! i) else None)"

section \<open>The Protobuf AST (proto.ts)\<close>

text \<open>
  A \<open>ProtoType\<close> is a tagged array: \<open>[$scalar, name]\<close>, \<open>[$ref, name]\<close> or
  \<open>[$map, key, value]\<close>. The key of a map is whatever the caller passed: at run time
  the type annotations are gone, so it is a string or \<open>undefined\<close>. The fourth
  constructor is not a \<open>ProtoType\<close>: it is a member of \<open>Object.prototype\<close>, which the
  scalar table of \<open>intrinsicToProto\<close> returns for an inherited name.
\<close>

datatype proto_type =
  PScalar string
  | PRef string
  | PMap "string option" proto_type
  | ObjectPrototypeMember string

definition scalar :: "string \<Rightarrow> proto_type" where
  "scalar t = PScalar t"

definition ref :: "string \<Rightarrow> proto_type" where
  "ref t = PRef t"

definition map_proto :: "string option \<Rightarrow> proto_type \<Rightarrow> proto_type" where
  "map_proto k v = PMap k v"

text \<open>\<open>keyProto[1]\<close>: the second element of the tagged array.\<close>

fun second :: "proto_type \<Rightarrow> string option" where
  "second (PScalar s) = Some s"
| "second (PRef s) = Some s"
| "second (PMap k v) = k"
| "second (ObjectPrototypeMember n) = None"

record proto_field =
  field_name :: string
  field_type :: proto_type
  field_index :: "js_number option"

record proto_method =
  method_name :: string
  method_input :: proto_type
  method_returns :: proto_type

datatype proto_decl =
  Service string "proto_method list"
  | Message string "proto_field list"

record proto_file =
  file_package :: "string option"
  file_declarations :: "proto_decl list"

section \<open>Reporting\<close>

text \<open>
  The state of one call of \<open>declarationsFromNamespace\<close>: its two local variables and the
  diagnostics of the program. A JavaScript \<open>Set\<close> keeps its elements in insertion order.
\<close>

record state =
  visitedTypes :: "nat list"
  declarations :: "proto_decl list"
  diags :: "diagnostic list"

text \<open>
  Modelled from the spec: \<open>reportDiagnostic\<close> of \<open>lib.ts\<close>, which is not among the
  sources. The spec says that the core emits one structured diagnostic event per
  violation and that the diagnostics accumulate on the pass: a report appends one event.
\<close>

definition reportDiagnostic :: "diagnostic \<Rightarrow> diagnostic list \<Rightarrow> diagnostic list" where
  "reportDiagnostic d ds = ds @ [d]"

definition report :: "diagnostic \<Rightarrow> state \<Rightarrow> state" where
  "report d st = st\<lparr>diags := reportDiagnostic d (diags st)\<rparr>"

definition unreachable :: string where
  "unreachable = ''<unreachable>''"

section \<open>The lowering pass (cadlToProto)\<close>

subsection \<open>The scalar table\<close>

definition scalarTable :: "(string \<times> proto_type) list" where
  "scalarTable =
    [(''bytes'', scalar ''bytes''),
     (''boolean'', scalar ''bool''),
     (''int32'', scalar ''int32''),
     (''int64'', scalar ''int64''),
     (''uint32'', scalar ''uint32''),
     (''uint64'', scalar ''uint64''),
     (''string'', scalar ''string''),
     (''float32'', scalar ''float''),
     (''float64'', scalar ''double'')]"

text \<open>
  The table is an object literal indexed by \<open>[name]\<close>: a name that is not a key of the
  literal is looked up in \<open>Object.prototype\<close>, whose members are functions (and, for
  \<open>__proto__\<close>, the prototype object): all of them truthy.
\<close>

definition objectPrototypeNames :: "string list" where
  "objectPrototypeNames =
    [''constructor'', ''hasOwnProperty'', ''isPrototypeOf'', ''propertyIsEnumerable'',
     ''toLocaleString'', ''toString'', ''valueOf'', ''__proto__'',
     ''__defineGetter__'', ''__defineSetter__'', ''__lookupGetter__'',
     ''__lookupSetter__'']"

definition tableLookup :: "string \<Rightarrow> proto_type option" where
  "tableLookup name =
    (case map_of scalarTable name of
       Some t \<Rightarrow> Some t
     | None \<Rightarrow>
         if name \<in> set objectPrototypeNames then Some (ObjectPrototypeMember name) else None)"

text \<open>The part of \<open>intrinsicToProto\<close> below the map branch.\<close>

definition scalarToProto :: "string \<Rightarrow> cadl_type \<Rightarrow> state \<Rightarrow> proto_type \<times> state" where
  "scalarToProto name t st =
    (case tableLookup name of
       None \<Rightarrow>
         (ref unreachable,
          report \<lparr>diag_code = ''unsupported-field-type'',
                  diag_messageId = Some ''unknown-intrinsic'',
                  diag_format = [(''name'', Str name)],
                  diag_target = OnType t\<rparr> st)
     | Some protoType \<Rightarrow> (protoType, st))"

subsection \<open>Models to messages\<close>

text \<open>
  The closures \<open>visitType\<close>, \<open>toMessage\<close>, \<open>toField\<close>, \<open>addType\<close> and \<open>intrinsicToProto\<close>
  call each other; \<open>toFields\<close> is \<open>[...model.properties.values()].map(toField)\<close>. Each
  call takes one unit of fuel and \<open>None\<close> says that the fuel ran out (or that a
  reference names no model of the store, which the compiler does not build). In
  \<open>visitType\<close> the argument of \<open>declarations.push\<close> is evaluated before the push: the
  messages of the models met inside come first.
\<close>

function (sequential) visitType :: "nat \<Rightarrow> program \<Rightarrow> nat \<Rightarrow> state \<Rightarrow> state option"
  and toMessage :: "nat \<Rightarrow> program \<Rightarrow> nat \<Rightarrow> state \<Rightarrow> (proto_decl \<times> state) option"
  and toFields :: "nat \<Rightarrow> program \<Rightarrow> model_property list \<Rightarrow> state
                    \<Rightarrow> (proto_field list \<times> state) option"
  and toField :: "nat \<Rightarrow> program \<Rightarrow> model_property \<Rightarrow> state \<Rightarrow> (proto_field \<times> state) option"
  and addType :: "nat \<Rightarrow> program \<Rightarrow> cadl_type \<Rightarrow> state \<Rightarrow> (proto_type \<times> state) option"
  and intrinsicToProto :: "nat \<Rightarrow> program \<Rightarrow> string \<Rightarrow> cadl_type \<Rightarrow> state
                            \<Rightarrow> (proto_type \<times> state) option"
where
  "visitType 0 p model st = None"
| "visitType (Suc n) p model st =
    (if model \<in> set (visitedTypes st) then Some st
     else
       (case toMessage n p model (st\<lparr>visitedTypes := visitedTypes st @ [model]\<rparr>) of
          None \<Rightarrow> None
        | Some (message, st1) \<Rightarrow> Some (st1\<lparr>declarations := declarations st1 @ [message]\<rparr>)))"
| "toMessage 0 p model st = None"
| "toMessage (Suc n) p model st =
    (case lookup_model p model of
       None \<Rightarrow> None
     | Some m \<Rightarrow>
         (case toFields n p (model_properties m) st of
            None \<Rightarrow> None
          | Some (fs, st1) \<Rightarrow> Some (Message (model_name m) fs, st1)))"
| "toFields 0 p properties st = None"
| "toFields (Suc n) p [] st = Some ([], st)"
| "toFields (Suc n) p (property # properties) st =
    (case toField n p property st of
       None \<Rightarrow> None
     | Some (f, st1) \<Rightarrow>
         (case toFields n p properties st1 of
            None \<Rightarrow> None
          | Some (fs, st2) \<Rightarrow> Some (f # fs, st2)))"
| "toField 0 p property st = None"
| "toField (Suc n) p property st =
    (case addType n p (prop_type property) st of
       None \<Rightarrow> None
     | Some (t, st1) \<Rightarrow>
         Some (\<lparr>field_name = prop_name property, field_type = t,
                 field_index = fieldIndices p (prop_id property)\<rparr>, st1))"
| "addType 0 p t st = None"
| "addType (Suc n) p t st =
    (case intrinsics p t of
       Some name \<Rightarrow> intrinsicToProto n p name t st
     | None \<Rightarrow>
         (case t of
            ModelT i \<Rightarrow>
              (case visitType n p i st of
                 None \<Rightarrow> None
               | Some st1 \<Rightarrow>
                   (case lookup_model p i of
                      None \<Rightarrow> None
                    | Some m \<Rightarrow> Some (ref (model_name m), st1)))
          | OtherT k \<Rightarrow>
              Some (ref unreachable,
                    report \<lparr>diag_code = ''unsupported-field-type'',
                            diag_messageId = Some ''unconvertible'',
                            diag_format = [(''type'', Str (kind_name k))],
                            diag_target = OnType t\<rparr> st)))"
| "intrinsicToProto 0 p name t st = None"
| "intrinsicToProto (Suc n) p name t st =
    (case t of
       OtherT k \<Rightarrow> Some (scalarToProto name t st)
     | ModelT i \<Rightarrow>
         (case lookup_model p i of
            None \<Rightarrow> None
          | Some m \<Rightarrow>
              if model_name m = ''Map'' \<and> model_namespace m = Some ''Cadl'' then
                (case (case model_templateArguments m of None \<Rightarrow> [] | Some args \<Rightarrow> args) of
                   keyType # valueType # rest \<Rightarrow>
                     (case addType n p keyType st of
                        None \<Rightarrow> None
                      | Some (keyProto, st1) \<Rightarrow>
                          (case addType n p valueType st1 of
                             None \<Rightarrow> None
                           | Some (valueProto, st2) \<Rightarrow>
                               Some (map_proto (second keyProto) valueProto, st2)))
                 | _ \<Rightarrow> Some (ref unreachable, st))
              else Some (scalarToProto name t st)))"
  by pat_completeness auto
termination
  by (relation "measure (\<lambda>x. case x of
        Inl (Inl (n, _)) \<Rightarrow> n
      | Inl (Inr (Inl (n, _))) \<Rightarrow> n
      | Inl (Inr (Inr (n, _))) \<Rightarrow> n
      | Inr (Inl (n, _)) \<Rightarrow> n
      | Inr (Inr (Inl (n, _))) \<Rightarrow> n
      | Inr (Inr (Inr (n, _))) \<Rightarrow> n)") auto


subsection \<open>Operations to methods\<close>

definition addModelAsInput :: "nat \<Rightarrow> program \<Rightarrow> model_type \<Rightarrow> state
    \<Rightarrow> (proto_type \<times> state) option" where
  "addModelAsInput n p model st =
    (case model_properties model of
       [param] \<Rightarrow>
         (case prop_type param of
            ModelT i \<Rightarrow>
              (case visitType n p i st of
                 None \<Rightarrow> None
               | Some st1 \<Rightarrow>
                   (case lookup_model p i of
                      None \<Rightarrow> None
                    | Some m \<Rightarrow> Some (ref (model_name m), st1)))
          | OtherT k \<Rightarrow>
              Some (ref unreachable,
                    report \<lparr>diag_code = ''unsupported-input-type'',
                            diag_messageId = Some ''wrong-type'',
                            diag_format = [],
                            diag_target = OnType (prop_type param)\<rparr> st))
     | _ \<Rightarrow>
         Some (ref unreachable,
               report \<lparr>diag_code = ''unsupported-input-type'',
                       diag_messageId = Some ''wrong-number'',
                       diag_format = [],
                       diag_target = OnModel model\<rparr> st))"

definition addReturnType :: "nat \<Rightarrow> program \<Rightarrow> cadl_type \<Rightarrow> state
    \<Rightarrow> (proto_type \<times> state) option" where
  "addReturnType n p t st =
    (case t of
       ModelT i \<Rightarrow>
         (case visitType n p i st of
            None \<Rightarrow> None
          | Some st1 \<Rightarrow>
              (case lookup_model p i of
                 None \<Rightarrow> None
               | Some m \<Rightarrow> Some (ref (model_name m), st1)))
     | OtherT k \<Rightarrow>
         Some (ref unreachable,
               report \<lparr>diag_code = ''unsupported-return-type'',
                       diag_messageId = None,
                       diag_format = [],
                       diag_target = OnType t\<rparr> st))"

definition toMethodFromOperation :: "nat \<Rightarrow> program \<Rightarrow> operation \<Rightarrow> state
    \<Rightarrow> (proto_method \<times> state) option" where
  "toMethodFromOperation n p operation st =
    (case addModelAsInput n p (op_parameters operation) st of
       None \<Rightarrow> None
     | Some (input, st1) \<Rightarrow>
         (case addReturnType n p (op_returnType operation) st1 of
            None \<Rightarrow> None
          | Some (returns, st2) \<Rightarrow>
              Some (\<lparr>method_name = op_name operation, method_input = input,
                      method_returns = returns\<rparr>, st2)))"

text \<open>\<open>[...iface.operations.values()].map(toMethodFromOperation)\<close>, left to right.\<close>

fun toMethods :: "nat \<Rightarrow> program \<Rightarrow> operation list \<Rightarrow> state
    \<Rightarrow> (proto_method list \<times> state) option" where
  "toMethods n p [] st = Some ([], st)"
| "toMethods n p (operation # operations) st =
    (case toMethodFromOperation n p operation st of
       None \<Rightarrow> None
     | Some (m, st1) \<Rightarrow>
         (case toMethods n p operations st1 of
            None \<Rightarrow> None
          | Some (ms, st2) \<Rightarrow> Some (m # ms, st2)))"

subsection \<open>Collecting the service interfaces\<close>

definition is_package :: "program \<Rightarrow> namespace \<Rightarrow> bool" where
  "is_package p ns = (ns_id ns \<in> set (map (\<lambda>(n, name). ns_id n) (packages p)))"

text \<open>\<open>serviceInterfaces.add\<close>: a set of interface objects, in insertion order.\<close>

definition set_add :: "interface \<Rightarrow> interface list \<Rightarrow> interface list" where
  "set_add i acc = (if iface_id i \<in> set (map iface_id acc) then acc else acc @ [i])"

definition addMemberInterfaces :: "program \<Rightarrow> interface list \<Rightarrow> interface list
    \<Rightarrow> interface list" where
  "addMemberInterfaces p members acc =
    fold (\<lambda>memberInterface acc.
            if iface_id memberInterface \<in> services p then set_add memberInterface acc else acc)
      members acc"

fun recursiveAddInterfaces :: "program \<Rightarrow> namespace \<Rightarrow> interface list \<Rightarrow> interface list" where
  "recursiveAddInterfaces p (Namespace i name members nesteds) serviceInterfaces =
    fold (\<lambda>nested acc. if \<not> is_package p nested then recursiveAddInterfaces p nested acc else acc)
      nesteds (addMemberInterfaces p members serviceInterfaces)"

subsection \<open>One file per package\<close>

text \<open>The loop over \<open>serviceInterfaces\<close>: the methods are built, then the service is pushed.\<close>

fun addServices :: "nat \<Rightarrow> program \<Rightarrow> interface list \<Rightarrow> state \<Rightarrow> state option" where
  "addServices n p [] st = Some st"
| "addServices n p (iface # ifaces) st =
    (case toMethods n p (iface_operations iface) st of
       None \<Rightarrow> None
     | Some (operations, st1) \<Rightarrow>
         addServices n p ifaces
           (st1\<lparr>declarations := declarations st1 @ [Service (iface_name iface) operations]\<rparr>))"

definition runNamespace :: "nat \<Rightarrow> program \<Rightarrow> namespace \<Rightarrow> diagnostic list \<Rightarrow> state option" where
  "runNamespace n p ns ds =
    addServices n p (recursiveAddInterfaces p ns [])
      \<lparr>visitedTypes = [], declarations = [], diags = ds\<rparr>"

definition declarationsFromNamespace :: "nat \<Rightarrow> program \<Rightarrow> namespace \<Rightarrow> diagnostic list
    \<Rightarrow> (proto_decl list \<times> diagnostic list) option" where
  "declarationsFromNamespace n p ns ds =
    (case runNamespace n p ns ds of
       None \<Rightarrow> None
     | Some st \<Rightarrow> Some (declarations st, diags st))"

text \<open>\<open>[...packages].map(...)\<close>: the diagnostics of the program run through all files.\<close>

fun filesFromPackages :: "nat \<Rightarrow> program \<Rightarrow> (namespace \<times> string) list \<Rightarrow> diagnostic list
    \<Rightarrow> (proto_file list \<times> diagnostic list) option" where
  "filesFromPackages n p [] ds = Some ([], ds)"
| "filesFromPackages n p ((ns, packageName) # rest) ds =
    (case declarationsFromNamespace n p ns ds of
       None \<Rightarrow> None
     | Some (decls, ds1) \<Rightarrow>
         (case filesFromPackages n p rest ds1 of
            None \<Rightarrow> None
          | Some (files, ds2) \<Rightarrow>
              Some (\<lparr>file_package = Some packageName, file_declarations = decls\<rparr> # files,
                    ds2)))"

definition cadlToProto :: "nat \<Rightarrow> program \<Rightarrow> (proto_file list \<times> diagnostic list) option" where
  "cadlToProto n p = filesFromPackages n p (packages p) (diagnostics p)"

section \<open>Writing the files (doEmit)\<close>

text \<open>\<open>String.prototype.split\<close> with a separator of one character.\<close>

fun js_split :: "char \<Rightarrow> string \<Rightarrow> string list" where
  "js_split c [] = [[]]"
| "js_split c (x # xs) =
    (if x = c then [] # js_split c xs
     else (case js_split c xs of w # ws \<Rightarrow> (x # w) # ws | [] \<Rightarrow> [[x]]))"

definition packageSlug :: "proto_file \<Rightarrow> string list" where
  "packageSlug file =
    (case file_package file of None \<Rightarrow> [''main''] | Some pkg \<Rightarrow> js_split CHR ''.'' pkg)"

text \<open>
  One write: the directories under \<open>outDir\<close> (\<open>packageSlug.slice(0, -1)\<close>), the file name
  (\<open>packageSlug.at(-1) + ".proto"\<close>) and the file handed to \<open>writeProtoFile\<close>.
\<close>

definition doEmit :: "nat \<Rightarrow> program \<Rightarrow> (string list \<times> string \<times> proto_file) list option" where
  "doEmit n p =
    (case cadlToProto n p of
       None \<Rightarrow> None
     | Some (files, ds) \<Rightarrow>
         Some (if \<not> noEmit p \<and> \<not> hasError p ds
               then map (\<lambda>file. (butlast (packageSlug file),
                                  last (packageSlug file) @ ''.proto'', file)) files
               else []))"

section \<open>The decorators (grpc.ts)\<close>

datatype syntax_kind = ModelStatement | ModelExpression | OtherSyntax

text \<open>
  The decorated node: a model property, with its identity and \<open>target.node.parent?.kind\<close>,
  or a node of another kind, which \<open>validateDecoratorTarget\<close> refuses. The argument is a
  number or a value that \<open>validateDecoratorParamType\<close> refuses.
\<close>

datatype decorator_target = PropertyTarget nat "syntax_kind option" | OtherTarget

datatype decorator_arg = NumberArg js_number | OtherArg

datatype internal_error = InternalError string

fun isInteger :: "js_number \<Rightarrow> bool" where
  "isInteger (Finite q) = (of_int \<lfloor>q\<rfloor> = q)"
| "isInteger _ = False"

text \<open>\<open>a < b\<close> and \<open>a <= b\<close> on numbers: false as soon as one side is \<open>NaN\<close>.\<close>

fun js_less :: "js_number \<Rightarrow> js_number \<Rightarrow> bool" where
  "js_less NaN b = False"
| "js_less a NaN = False"
| "js_less (Finite x) (Finite y) = (x < y)"
| "js_less a NegInfinity = False"
| "js_less NegInfinity b = True"
| "js_less PosInfinity b = False"
| "js_less a PosInfinity = True"

fun js_le :: "js_number \<Rightarrow> js_number \<Rightarrow> bool" where
  "js_le NaN b = False"
| "js_le a NaN = False"
| "js_le a b = (a = b \<or> js_less a b)"

definition MAX_FIELD_INDEX :: js_number where
  "MAX_FIELD_INDEX = Finite (2 ^ 29 - 1)"

definition IMPLEMENTATION_RESERVED_RANGE :: "js_number \<times> js_number" where
  "IMPLEMENTATION_RESERVED_RANGE = (Finite 19000, Finite 19999)"

definition reportOnProgram :: "diagnostic \<Rightarrow> program \<Rightarrow> program" where
  "reportOnProgram d p = p\<lparr>diagnostics := reportDiagnostic d (diagnostics p)\<rparr>"

text \<open>
  \<open>$field\<close>. A refused target or argument returns at once (the compiler has reported it
  itself). The \<open>throw\<close> is the left summand.
\<close>

definition dollar_field :: "program \<Rightarrow> decorator_target \<Rightarrow> decorator_arg
    \<Rightarrow> internal_error + program" where
  "dollar_field p target arg =
    (case target of
       OtherTarget \<Rightarrow> Inr p
     | PropertyTarget pid parentKind \<Rightarrow>
         (case arg of
            OtherArg \<Rightarrow> Inr p
          | NumberArg fieldIndex \<Rightarrow>
              if \<not> isInteger fieldIndex \<or> js_le fieldIndex (Finite 0) then
                Inr (reportOnProgram
                       \<lparr>diag_code = ''field-index'', diag_messageId = Some ''invalid'',
                        diag_format = [(''index'', StringOf fieldIndex)],
                        diag_target = OnProperty pid\<rparr> p)
              else if js_less MAX_FIELD_INDEX fieldIndex then
                Inr (reportOnProgram
                       \<lparr>diag_code = ''field-index'', diag_messageId = Some ''out-of-bounds'',
                        diag_format = [(''index'', StringOf fieldIndex),
                                       (''max'', StringOf MAX_FIELD_INDEX)],
                        diag_target = OnProperty pid\<rparr> p)
              else
                (let p1 =
                   (if js_le (fst IMPLEMENTATION_RESERVED_RANGE) fieldIndex
                       \<and> js_le fieldIndex (snd IMPLEMENTATION_RESERVED_RANGE)
                    then reportOnProgram
                           \<lparr>diag_code = ''field-index'', diag_messageId = Some ''reserved'',
                            diag_format = [(''index'', StringOf fieldIndex)],
                            diag_target = OnProperty pid\<rparr> p
                    else p)
                 in if parentKind \<noteq> Some ModelStatement
                    then Inl (InternalError ''model property parent is not a model'')
                    else Inr (p1\<lparr>fieldIndices := (fieldIndices p1)(pid := Some fieldIndex)\<rparr>))))"

section \<open>Notions used in the statements\<close>

text \<open>
  The test of \<open>intrinsicToProto\<close> for an instance of \<open>Cadl.Map\<close>, a reference that
  names a model of the store, and the diagnostic for an intrinsic outside the table.
\<close>

definition isMapInstance :: "program \<Rightarrow> cadl_type \<Rightarrow> bool" where
  "isMapInstance p t =
    (case t of
       ModelT i \<Rightarrow>
         (case lookup_model p i of
            Some m \<Rightarrow> model_name m = ''Map'' \<and> model_namespace m = Some ''Cadl''
          | None \<Rightarrow> False)
     | OtherT k \<Rightarrow> False)"

definition inStore :: "program \<Rightarrow> cadl_type \<Rightarrow> bool" where
  "inStore p t = (case t of ModelT i \<Rightarrow> i < length (models p) | OtherT k \<Rightarrow> True)"

definition unknownIntrinsic :: "string \<Rightarrow> cadl_type \<Rightarrow> diagnostic" where
  "unknownIntrinsic name t =
    \<lparr>diag_code = ''unsupported-field-type'', diag_messageId = Some ''unknown-intrinsic'',
     diag_format = [(''name'', Str name)], diag_target = OnType t\<rparr>"

text \<open>The diagnostics of \<open>$field\<close>, by their sub-code.\<close>

definition fieldIndexDiagnostic :: "string \<Rightarrow> js_number \<Rightarrow> nat \<Rightarrow> diagnostic" where
  "fieldIndexDiagnostic messageId i pid =
    \<lparr>diag_code = ''field-index'', diag_messageId = Some messageId,
     diag_format =
       (if messageId = ''out-of-bounds''
        then [(''index'', StringOf i), (''max'', StringOf MAX_FIELD_INDEX)]
        else [(''index'', StringOf i)]),
     diag_target = OnProperty pid\<rparr>"

text \<open>
  A model that passes the test for \<open>Cadl.Map\<close> and has fewer than two template
  arguments, met as an intrinsic: the case in which \<open>intrinsicToProto\<close> returns the
  placeholder without a report. \<open>placeholderFree\<close> says
  that no model of the store bears the name of the placeholder.
\<close>

definition templateArguments :: "model_type \<Rightarrow> cadl_type list" where
  "templateArguments m = (case model_templateArguments m of None \<Rightarrow> [] | Some args \<Rightarrow> args)"

definition mapWithoutArguments :: "program \<Rightarrow> cadl_type \<Rightarrow> bool" where
  "mapWithoutArguments p t =
    (intrinsics p t \<noteq> None \<and> isMapInstance p t \<and>
     (case t of
        ModelT i \<Rightarrow>
          (case lookup_model p i of
             Some m \<Rightarrow> length (templateArguments m) < 2
           | None \<Rightarrow> False)
      | OtherT k \<Rightarrow> False))"

definition placeholderFree :: "program \<Rightarrow> bool" where
  "placeholderFree p = list_all (\<lambda>m. model_name m \<noteq> unreachable) (models p)"

text \<open>
  The name of a model of the store, and the names of the messages and the services
  among declarations.
\<close>

definition modelName :: "program \<Rightarrow> nat \<Rightarrow> string" where
  "modelName p i = model_name (models p ! i)"

fun messageNames :: "proto_decl list \<Rightarrow> string list" where
  "messageNames [] = []"
| "messageNames (Message name fs # ds) = name # messageNames ds"
| "messageNames (Service name ms # ds) = messageNames ds"

fun serviceDeclarations :: "proto_decl list \<Rightarrow> proto_decl list" where
  "serviceDeclarations [] = []"
| "serviceDeclarations (Message name fs # ds) = serviceDeclarations ds"
| "serviceDeclarations (Service name ms # ds) = Service name ms # serviceDeclarations ds"

text \<open>
  What a call may do to the state: it adds models at the end of the visited set, messages
  at the end of the declarations (one for each model added, under its name, and no
  service) and diagnostics at the end of the diagnostics.
\<close>

definition effect :: "program \<Rightarrow> state \<Rightarrow> state \<Rightarrow> bool" where
  "effect p st st' =
    (\<exists>new msgs ds.
       visitedTypes st' = visitedTypes st @ new \<and>
       declarations st' = declarations st @ msgs \<and>
       diags st' = diags st @ ds \<and>
       serviceDeclarations msgs = [] \<and>
       mset (messageNames msgs) = mset (map (modelName p) new) \<and>
       list_all (\<lambda>i. i < length (models p)) new \<and>
       (distinct (visitedTypes st) \<longrightarrow> distinct (visitedTypes st')))"

section \<open>Well-formed programs\<close>

text \<open>
  \<open>closedStore\<close>: every reference held by a model of the store names a model of the
  store. \<open>templateRanked\<close>: along the template arguments that \<open>intrinsicToProto\<close> follows
  (the first two arguments of an intrinsic instance of \<open>Cadl.Map\<close>) the rank \<open>rk\<close>
  decreases; the compiler builds the arguments of an instance before the instance, so
  such a rank exists. No condition is put on the properties of the models: they may
  refer to any model, in cycles.
\<close>

definition closedStore :: "program \<Rightarrow> bool" where
  "closedStore p =
    list_all (\<lambda>m. list_all (\<lambda>pr. inStore p (prop_type pr)) (model_properties m)
                 \<and> list_all (inStore p) (templateArguments m))
      (models p)"

definition templateRanked :: "program \<Rightarrow> (nat \<Rightarrow> nat) \<Rightarrow> bool" where
  "templateRanked p rk =
    list_all (\<lambda>i. intrinsics p (ModelT i) = None \<or> \<not> isMapInstance p (ModelT i) \<or>
                 list_all (\<lambda>t. case t of ModelT j \<Rightarrow> rk j < rk i | OtherT k \<Rightarrow> True)
                   (take 2 (templateArguments (models p ! i))))
      [0..<length (models p)]"

definition templateDepth :: "(nat \<Rightarrow> nat) \<Rightarrow> cadl_type \<Rightarrow> nat" where
  "templateDepth rk t = (case t of ModelT i \<Rightarrow> Suc (rk i) | OtherT k \<Rightarrow> 0)"

text \<open>The number of models of the store that are not in the visited set.\<close>

definition unvisited :: "program \<Rightarrow> state \<Rightarrow> nat" where
  "unvisited p st = card ({..<length (models p)} - set (visitedTypes st))"

text \<open>
  \<open>closedPackages\<close>: the operations of the service interfaces collected for the
  packages refer to models of the store.
\<close>

definition closedOperation :: "program \<Rightarrow> operation \<Rightarrow> bool" where
  "closedOperation p operation =
    (inStore p (op_returnType operation) \<and>
     list_all (\<lambda>pr. inStore p (prop_type pr)) (model_properties (op_parameters operation)))"

definition closedPackages :: "program \<Rightarrow> bool" where
  "closedPackages p =
    list_all (\<lambda>(ns, name).
        list_all (\<lambda>iface. list_all (closedOperation p) (iface_operations iface))
          (recursiveAddInterfaces p ns []))
      (packages p)"

section \<open>What a file should hold\<close>

text \<open>
  The model that an operation takes as its input (the type of the only property of its
  parameter bag, when that is a model) and the model it returns, the reference to such a
  model and the method that an operation stands for. \<open>declared ds r\<close>: the reference \<open>r\<close>
  is the placeholder or bears the name of a message among \<open>ds\<close>.
\<close>

definition inputModel :: "model_type \<Rightarrow> nat option" where
  "inputModel model =
    (case model_properties model of
       [param] \<Rightarrow> (case prop_type param of ModelT i \<Rightarrow> Some i | OtherT k \<Rightarrow> None)
     | _ \<Rightarrow> None)"

definition returnModel :: "cadl_type \<Rightarrow> nat option" where
  "returnModel t = (case t of ModelT i \<Rightarrow> Some i | OtherT k \<Rightarrow> None)"

definition referenceTo :: "program \<Rightarrow> nat option \<Rightarrow> proto_type" where
  "referenceTo p model = (case model of Some i \<Rightarrow> ref (modelName p i) | None \<Rightarrow> ref unreachable)"

definition methodOf :: "program \<Rightarrow> operation \<Rightarrow> proto_method" where
  "methodOf p operation =
    \<lparr>method_name = op_name operation,
     method_input = referenceTo p (inputModel (op_parameters operation)),
     method_returns = referenceTo p (returnModel (op_returnType operation))\<rparr>"

definition serviceOf :: "program \<Rightarrow> interface \<Rightarrow> proto_decl" where
  "serviceOf p iface = Service (iface_name iface) (map (methodOf p) (iface_operations iface))"

definition declared :: "proto_decl list \<Rightarrow> proto_type \<Rightarrow> bool" where
  "declared ds r = (r = ref unreachable \<or> (\<exists>name \<in> set (messageNames ds). r = PRef name))"

definition visitedOption :: "state \<Rightarrow> nat option \<Rightarrow> bool" where
  "visitedOption st model = (case model of Some i \<Rightarrow> i \<in> set (visitedTypes st) | None \<Rightarrow> True)"

text \<open>
  The invariant of a file under construction, between two operations: no model is
  visited twice and the messages declared are those of the visited models, one each.
\<close>

definition fileInvariant :: "program \<Rightarrow> state \<Rightarrow> bool" where
  "fileInvariant p st =
    (distinct (visitedTypes st) \<and>
     mset (messageNames (declarations st)) = mset (map (modelName p) (visitedTypes st)))"

text \<open>
  \<open>wellOrdered before ds\<close>: every reference of a method of a service among \<open>ds\<close> is
  declared by what stands before the service (\<open>before\<close>, then the declarations of \<open>ds\<close>
  in front of it).
\<close>

fun wellOrdered :: "proto_decl list \<Rightarrow> proto_decl list \<Rightarrow> bool" where
  "wellOrdered before [] = True"
| "wellOrdered before (Message name fs # ds) = wellOrdered (before @ [Message name fs]) ds"
| "wellOrdered before (Service name ms # ds) =
    (list_all (\<lambda>m. declared before (method_input m) \<and> declared before (method_returns m)) ms
     \<and> wellOrdered (before @ [Service name ms]) ds)"

section \<open>The namespaces that a package scans\<close>



definition closedNamespace :: "program \<Rightarrow> namespace \<Rightarrow> bool" where
  "closedNamespace p ns =
    list_all (\<lambda>iface. list_all (closedOperation p) (iface_operations iface))
      (recursiveAddInterfaces p ns [])"

section \<open>Example programs\<close>

definition emptyState :: state where
  "emptyState = \<lparr>visitedTypes = [], declarations = [], diags = []\<rparr>"

definition bareProgram :: program where
  "bareProgram =
    \<lparr>models = [], intrinsics = (\<lambda>t. None), packages = [], services = {},
     fieldIndices = (\<lambda>i. None), diagnostics = [], noEmit = False,
     hasError = (\<lambda>ds. ds \<noteq> [])\<rparr>"

text \<open>The diagnostic of \<open>addModelAsInput\<close> for a parameter bag that has not one property.\<close>

definition wrongNumber :: "model_type \<Rightarrow> diagnostic" where
  "wrongNumber model =
    \<lparr>diag_code = ''unsupported-input-type'', diag_messageId = Some ''wrong-number'',
     diag_format = [], diag_target = OnModel model\<rparr>"

text \<open>An operation without parameters that returns a string literal type.\<close>

definition noParameters :: operation where
  "noParameters =
    \<lparr>op_name = ''Ping'',
     op_parameters = \<lparr>model_name = '''', model_namespace = None, model_properties = [],
                      model_templateArguments = None\<rparr>,
     op_returnType = OtherT KString\<rparr>"

text \<open>
  A store of intrinsic models: two scalars, three models named \<open>Map\<close> in a namespace
  \<open>Cadl\<close> (a map of strings, a map of maps under a floating-point key, and one without
  template arguments), a model
  declared intrinsic under the name \<open>constructor\<close>, and a scalar outside the table.
\<close>

definition intrinsicModel :: "string \<Rightarrow> model_type" where
  "intrinsicModel name =
    \<lparr>model_name = name, model_namespace = Some ''Cadl'', model_properties = [],
     model_templateArguments = None\<rparr>"

definition mapInstance :: "cadl_type list option \<Rightarrow> model_type" where
  "mapInstance args =
    \<lparr>model_name = ''Map'', model_namespace = Some ''Cadl'', model_properties = [],
     model_templateArguments = args\<rparr>"

definition scalarsProgram :: program where
  "scalarsProgram =
    bareProgram
    \<lparr>models :=
       [intrinsicModel ''string'',
        intrinsicModel ''float64'',
        mapInstance (Some [ModelT 0, ModelT 0]),
        mapInstance (Some [ModelT 1, ModelT 2]),
        mapInstance None,
        intrinsicModel ''Weird'',
        intrinsicModel ''plainDate''],
     intrinsics :=
       map_of [(ModelT 0, ''string''), (ModelT 1, ''float64''), (ModelT 2, ''Map''),
               (ModelT 3, ''Map''), (ModelT 4, ''Map''), (ModelT 5, ''constructor''),
               (ModelT 6, ''plainDate'')]\<rparr>"

text \<open>
  The Greeter example, extended: a package \<open>com.azure.greeter\<close> whose namespace holds the
  service \<open>Greeter\<close>, an interface that is no service, a nested namespace that is not a
  package (service \<open>Echo\<close>) and a nested namespace that is a package of its own (service
  \<open>Inner\<close>). \<open>Node\<close> refers to itself, directly and through a map; \<open>Ping\<close> and \<open>Pong\<close> refer to
  each other.
\<close>

definition declaredModel :: "string \<Rightarrow> model_property list \<Rightarrow> model_type" where
  "declaredModel name properties =
    \<lparr>model_name = name, model_namespace = Some ''Greeter'', model_properties = properties,
     model_templateArguments = None\<rparr>"

definition parameterBag :: "nat \<Rightarrow> string \<Rightarrow> cadl_type \<Rightarrow> model_type" where
  "parameterBag i name t =
    \<lparr>model_name = '''', model_namespace = None,
     model_properties = [\<lparr>prop_id = i, prop_name = name, prop_type = t\<rparr>],
     model_templateArguments = None\<rparr>"

definition greeterModels :: "model_type list" where
  "greeterModels =
    [intrinsicModel ''string'',
     declaredModel ''HelloRequest'' [\<lparr>prop_id = 0, prop_name = ''name'', prop_type = ModelT 0\<rparr>],
     declaredModel ''HelloReply'' [\<lparr>prop_id = 1, prop_name = ''message'', prop_type = ModelT 0\<rparr>],
     declaredModel ''Node''
       [\<lparr>prop_id = 2, prop_name = ''next'', prop_type = ModelT 3\<rparr>,
        \<lparr>prop_id = 3, prop_name = ''label'', prop_type = ModelT 0\<rparr>,
        \<lparr>prop_id = 6, prop_name = ''children'', prop_type = ModelT 6\<rparr>],
     declaredModel ''Ping'' [\<lparr>prop_id = 4, prop_name = ''pong'', prop_type = ModelT 5\<rparr>],
     declaredModel ''Pong'' [\<lparr>prop_id = 5, prop_name = ''ping'', prop_type = ModelT 4\<rparr>],
     mapInstance (Some [ModelT 0, ModelT 3])]"

definition greeterInterface :: interface where
  "greeterInterface =
    \<lparr>iface_id = 0, iface_name = ''Greeter'',
     iface_operations =
       [\<lparr>op_name = ''SayHello'', op_parameters = parameterBag 10 ''request'' (ModelT 1),
         op_returnType = ModelT 2\<rparr>,
        \<lparr>op_name = ''SayHelloAgain'', op_parameters = parameterBag 11 ''request'' (ModelT 1),
         op_returnType = ModelT 2\<rparr>,
        \<lparr>op_name = ''Walk'', op_parameters = parameterBag 12 ''node'' (ModelT 3),
         op_returnType = ModelT 3\<rparr>]\<rparr>"

definition helperInterface :: interface where
  "helperInterface = \<lparr>iface_id = 1, iface_name = ''Helper'', iface_operations = []\<rparr>"

definition echoInterface :: interface where
  "echoInterface =
    \<lparr>iface_id = 2, iface_name = ''Echo'',
     iface_operations =
       [\<lparr>op_name = ''Echo'', op_parameters = parameterBag 13 ''ping'' (ModelT 4),
         op_returnType = ModelT 5\<rparr>]\<rparr>"

definition innerInterface :: interface where
  "innerInterface =
    \<lparr>iface_id = 3, iface_name = ''Inner'',
     iface_operations =
       [\<lparr>op_name = ''Hello'', op_parameters = parameterBag 14 ''request'' (ModelT 1),
         op_returnType = ModelT 2\<rparr>]\<rparr>"

definition innerNamespace :: namespace where
  "innerNamespace = Namespace 2 ''Inner'' [innerInterface] []"

definition subNamespace :: namespace where
  "subNamespace = Namespace 1 ''Sub'' [echoInterface] []"

definition greeterNamespace :: namespace where
  "greeterNamespace =
    Namespace 0 ''Greeter'' [greeterInterface, helperInterface] [subNamespace, innerNamespace]"

definition greeterProgram :: program where
  "greeterProgram =
    \<lparr>models = greeterModels,
     intrinsics = map_of [(ModelT 0, ''string''), (ModelT 6, ''Map'')],
     packages = [(greeterNamespace, ''com.azure.greeter''), (innerNamespace, ''com.azure.inner'')],
     services = {0, 2, 3},
     fieldIndices =
       map_of [(0, Finite 1), (1, Finite 1), (2, Finite 1), (3, Finite 2), (4, Finite 1),
               (5, Finite 1), (6, Finite 3)],
     diagnostics = [], noEmit = False, hasError = (\<lambda>ds. ds \<noteq> [])\<rparr>"

text \<open>A rank for the template arguments of the Greeter example: the map is above its arguments.\<close>

definition greeterRank :: "nat \<Rightarrow> nat" where
  "greeterRank i = (if i = 6 then 1 else 0)"



definition greeterDeclarations :: "proto_decl list" where
  "greeterDeclarations =
    [Message ''HelloRequest''
       [\<lparr>field_name = ''name'', field_type = PScalar ''string'',
         field_index = Some (Finite 1)\<rparr>],
     Message ''HelloReply''
       [\<lparr>field_name = ''message'', field_type = PScalar ''string'',
         field_index = Some (Finite 1)\<rparr>],
     Message ''Node''
       [\<lparr>field_name = ''next'', field_type = PRef ''Node'', field_index = Some (Finite 1)\<rparr>,
        \<lparr>field_name = ''label'', field_type = PScalar ''string'',
         field_index = Some (Finite 2)\<rparr>,
        \<lparr>field_name = ''children'', field_type = PMap (Some ''string'') (PRef ''Node''),
         field_index = Some (Finite 3)\<rparr>],
     Service ''Greeter''
       [\<lparr>method_name = ''SayHello'', method_input = PRef ''HelloRequest'',
         method_returns = PRef ''HelloReply''\<rparr>,
        \<lparr>method_name = ''SayHelloAgain'', method_input = PRef ''HelloRequest'',
         method_returns = PRef ''HelloReply''\<rparr>,
        \<lparr>method_name = ''Walk'', method_input = PRef ''Node'',
         method_returns = PRef ''Node''\<rparr>],
     Message ''Pong''
       [\<lparr>field_name = ''ping'', field_type = PRef ''Ping'', field_index = Some (Finite 1)\<rparr>],
     Message ''Ping''
       [\<lparr>field_name = ''pong'', field_type = PRef ''Pong'', field_index = Some (Finite 1)\<rparr>],
     Service ''Echo''
       [\<lparr>method_name = ''Echo'', method_input = PRef ''Ping'',
         method_returns = PRef ''Pong''\<rparr>]]"

definition innerDeclarations :: "proto_decl list" where
  "innerDeclarations =
    [Message ''HelloRequest''
       [\<lparr>field_name = ''name'', field_type = PScalar ''string'',
         field_index = Some (Finite 1)\<rparr>],
     Message ''HelloReply''
       [\<lparr>field_name = ''message'', field_type = PScalar ''string'',
         field_index = Some (Finite 1)\<rparr>],
     Service ''Inner''
       [\<lparr>method_name = ''Hello'', method_input = PRef ''HelloRequest'',
         method_returns = PRef ''HelloReply''\<rparr>]]"


section \<open>Properties\<close>

subsection \<open>Method inputs\<close>

lemma addModelAsInput_wrong_number:
  "length (model_properties model) \<noteq> 1 \<Longrightarrow>
   addModelAsInput n p model st = Some (ref unreachable, report (wrongNumber model) st)"
  by (cases "model_properties model" rule: list.exhaust; cases "tl (model_properties model)")
     (auto simp: addModelAsInput_def wrongNumber_def split: list.splits)

text \<open>
  C6. An operation whose parameter bag has a number of properties other than one: the
  \<open>unsupported-input-type\<close> / \<open>wrong-number\<close> diagnostic is recorded on the bag, the input
  of the method is the reference \<open><unreachable>\<close>, and the translation goes on with the
  return type of the operation and with the operations that follow it.
\<close>

theorem C6_wrong_number:
  assumes "length (model_properties (op_parameters operation)) \<noteq> 1"
  shows "addModelAsInput n p (op_parameters operation) st
           = Some (ref unreachable, report (wrongNumber (op_parameters operation)) st)
       \<and> toMethodFromOperation n p operation st
           = (case addReturnType n p (op_returnType operation)
                     (report (wrongNumber (op_parameters operation)) st) of
                None \<Rightarrow> None
              | Some (returns, st2) \<Rightarrow>
                  Some (\<lparr>method_name = op_name operation, method_input = ref unreachable,
                          method_returns = returns\<rparr>, st2))
       \<and> toMethods n p (operation # operations) st
           = (case addReturnType n p (op_returnType operation)
                     (report (wrongNumber (op_parameters operation)) st) of
                None \<Rightarrow> None
              | Some (returns, st2) \<Rightarrow>
                  (case toMethods n p operations st2 of
                     None \<Rightarrow> None
                   | Some (ms, st3) \<Rightarrow>
                       Some (\<lparr>method_name = op_name operation, method_input = ref unreachable,
                               method_returns = returns\<rparr> # ms, st3)))"
  using addModelAsInput_wrong_number [OF assms, of n p st]
  by (simp add: toMethodFromOperation_def split: option.splits)

theorem C6_wrong_number_witness:
  "length (model_properties (op_parameters noParameters)) \<noteq> 1
   \<and> toMethods 0 bareProgram [noParameters, noParameters] emptyState
       = Some ([\<lparr>method_name = ''Ping'', method_input = PRef ''<unreachable>'',
                  method_returns = PRef ''<unreachable>''\<rparr>,
                \<lparr>method_name = ''Ping'', method_input = PRef ''<unreachable>'',
                  method_returns = PRef ''<unreachable>''\<rparr>],
               emptyState\<lparr>diags :=
                 [wrongNumber (op_parameters noParameters),
                  \<lparr>diag_code = ''unsupported-return-type'', diag_messageId = None,
                   diag_format = [], diag_target = OnType (OtherT KString)\<rparr>,
                  wrongNumber (op_parameters noParameters),
                  \<lparr>diag_code = ''unsupported-return-type'', diag_messageId = None,
                   diag_format = [], diag_target = OnType (OtherT KString)\<rparr>]\<rparr>)"
proof -
  have h: "length (model_properties (op_parameters noParameters)) \<noteq> 1"
    by (simp add: noParameters_def)
  from C6_wrong_number [OF h, of 0 bareProgram emptyState "[noParameters]"]
       C6_wrong_number [OF h, of 0 bareProgram _ "[]"]
  show ?thesis
    using h
    by (simp add: addReturnType_def report_def reportDiagnostic_def emptyState_def
        ref_def unreachable_def noParameters_def)
qed

subsection \<open>Scalars\<close>

lemma tableLookup_table:
  "tableLookup ''bytes'' = Some (PScalar ''bytes'')"
  "tableLookup ''boolean'' = Some (PScalar ''bool'')"
  "tableLookup ''int32'' = Some (PScalar ''int32'')"
  "tableLookup ''int64'' = Some (PScalar ''int64'')"
  "tableLookup ''uint32'' = Some (PScalar ''uint32'')"
  "tableLookup ''uint64'' = Some (PScalar ''uint64'')"
  "tableLookup ''string'' = Some (PScalar ''string'')"
  "tableLookup ''float32'' = Some (PScalar ''float'')"
  "tableLookup ''float64'' = Some (PScalar ''double'')"
  by (simp_all add: tableLookup_def scalarTable_def scalar_def)

lemma intrinsicToProto_not_map:
  assumes "inStore p t" "\<not> isMapInstance p t"
  shows "intrinsicToProto (Suc n) p name t st = Some (scalarToProto name t st)"
  using assms
  by (cases t) (auto simp: inStore_def isMapInstance_def lookup_model_def)

lemma intrinsicToProto_recognized:
  assumes "inStore p t" "\<not> isMapInstance p t" "map_of scalarTable name = Some r"
  shows "intrinsicToProto (Suc n) p name t st = Some (r, st)"
proof -
  have "scalarToProto name t st = (r, st)"
    using assms(3) by (simp add: scalarToProto_def tableLookup_def)
  then show ?thesis
    by (simp only: intrinsicToProto_not_map [OF assms(1,2)])
qed

lemma intrinsicToProto_unknown:
  assumes "inStore p t" "\<not> isMapInstance p t" "map_of scalarTable name = None"
    "name \<notin> set objectPrototypeNames"
  shows "intrinsicToProto (Suc n) p name t st
           = Some (ref unreachable, report (unknownIntrinsic name t) st)"
proof -
  have "scalarToProto name t st = (ref unreachable, report (unknownIntrinsic name t) st)"
    using assms(3,4) by (simp add: scalarToProto_def tableLookup_def unknownIntrinsic_def)
  then show ?thesis
    by (simp only: intrinsicToProto_not_map [OF assms(1,2)])
qed

lemma intrinsicToProto_inherited:
  assumes "inStore p t" "\<not> isMapInstance p t" "name \<in> set objectPrototypeNames"
  shows "intrinsicToProto (Suc n) p name t st = Some (ObjectPrototypeMember name, st)"
proof -
  have "\<forall>x \<in> set objectPrototypeNames. map_of scalarTable x = None"
    by (simp add: objectPrototypeNames_def scalarTable_def)
  with assms(3) have "map_of scalarTable name = None"
    by blast
  with assms(3) have "scalarToProto name t st = (ObjectPrototypeMember name, st)"
    by (simp add: scalarToProto_def tableLookup_def)
  then show ?thesis
    by (simp only: intrinsicToProto_not_map [OF assms(1,2)])
qed

text \<open>
  C8. The table is right on its nine names, and a name that is neither in the table nor a
  member of \<open>Object.prototype\<close> is reported and replaced by \<open><unreachable>\<close> (the three
  lemmas above). A model declared intrinsic under the name \<open>constructor\<close> is outside the
  table, yet no diagnostic is raised and no placeholder returned: the lookup finds the
  inherited member and returns it as the wire type.
\<close>

theorem C8_inherited_name:
  "addType 2 scalarsProgram (ModelT 5) emptyState
     = Some (ObjectPrototypeMember ''constructor'', emptyState)
   \<and> map_of scalarTable ''constructor'' = None"
  by (simp add: eval_nat_numeral scalarsProgram_def bareProgram_def lookup_model_def
      mapInstance_def intrinsicModel_def scalarToProto_def tableLookup_def scalarTable_def
      scalar_def objectPrototypeNames_def)

subsection \<open>Maps\<close>

text \<open>
  C4. \<open>map\<close> builds the triple from whatever it is given. For a property of type
  \<open>Map<float64, Map<string, string>>\<close> the wire type has the key \<open>double\<close>, which is
  neither \<open>string\<close> nor integral, and a value that is itself a map; nothing is reported.
\<close>

theorem C4_map_unchecked:
  "addType 6 scalarsProgram (ModelT 3) emptyState
     = Some (PMap (Some ''double'') (PMap (Some ''string'') (PScalar ''string'')), emptyState)"
  by (simp add: eval_nat_numeral scalarsProgram_def bareProgram_def lookup_model_def
      mapInstance_def intrinsicModel_def scalarToProto_def tableLookup_def scalarTable_def
      scalar_def map_proto_def)

subsection \<open>Files and packages\<close>

lemma filesFromPackages_packages:
  "filesFromPackages n p pkgs ds = Some (files, ds') \<Longrightarrow>
   map file_package files = map (\<lambda>(ns, name). Some name) pkgs"
proof (induction pkgs arbitrary: ds files)
  case Nil
  then show ?case by simp
next
  case (Cons pkg pkgs)
  obtain ns name where pkg: "pkg = (ns, name)" by (cases pkg)
  from Cons.prems obtain decls ds1 rest where
    rest: "filesFromPackages n p pkgs ds1 = Some (rest, ds')"
    and files: "files = \<lparr>file_package = Some name, file_declarations = decls\<rparr> # rest"
    by (auto simp: pkg split: option.splits prod.splits)
  from Cons.IH [OF rest] show ?case by (simp add: files pkg)
qed

text \<open>
  C3, as the spec states it, fails: with no package declared the pass yields no file and
  nothing is written, whatever services the graph holds.
\<close>

theorem C3_no_package_no_file:
  "cadlToProto 12 (greeterProgram\<lparr>packages := []\<rparr>) = Some ([], [])
   \<and> doEmit 12 (greeterProgram\<lparr>packages := []\<rparr>) = Some []"
  by (simp add: cadlToProto_def doEmit_def greeterProgram_def)

text \<open>
  C3, amended. The pass yields one file per declared package, in the order of the
  declarations, each carrying the name of its package; with no package declared it
  yields no file and \<open>doEmit\<close> writes nothing. The stem \<open>main\<close> is what \<open>doEmit\<close> uses
  for a file without a package name, which the pass never builds.
\<close>

theorem C3_one_file_per_package:
  "(cadlToProto n p = Some (files, ds)
      \<longrightarrow> map file_package files = map (\<lambda>(ns, name). Some name) (packages p))
   \<and> cadlToProto n (p\<lparr>packages := []\<rparr>) = Some ([], diagnostics p)
   \<and> doEmit n (p\<lparr>packages := []\<rparr>) = Some []
   \<and> packageSlug \<lparr>file_package = None, file_declarations = decls\<rparr> = [''main'']"
  by (auto simp: cadlToProto_def doEmit_def packageSlug_def dest: filesFromPackages_packages)

lemma greeter_runs: "cadlToProto 12 greeterProgram \<noteq> None"
  by code_simp

theorem C3_one_file_per_package_witness:
  "\<exists>files ds. cadlToProto 12 greeterProgram = Some (files, ds)
      \<and> map file_package files = [Some ''com.azure.greeter'', Some ''com.azure.inner'']"
proof -
  from greeter_runs obtain files ds where run: "cadlToProto 12 greeterProgram = Some (files, ds)"
    by (cases "cadlToProto 12 greeterProgram") auto
  with C3_one_file_per_package [of 12 greeterProgram files ds]
  have "map file_package files = map (\<lambda>(ns, name). Some name) (packages greeterProgram)"
    by simp
  then have names: "map file_package files = [Some ''com.azure.greeter'', Some ''com.azure.inner'']"
    by (simp add: greeterProgram_def)
  show ?thesis
    by (rule exI [of _ files], rule exI [of _ ds]) (simp only: run names)
qed

subsection \<open>Field indices\<close>

lemma js_le_Finite: "js_le (Finite x) (Finite y) = (x \<le> y)"
  by auto

lemma js_less_Finite: "js_less (Finite x) (Finite y) = (x < y)"
  by simp

lemma not_positive_integer:
  assumes "\<forall>k::int. 0 < k \<longrightarrow> i \<noteq> Finite (of_int k)"
  shows "\<not> isInteger i \<or> js_le i (Finite 0)"
proof (cases i)
  case (Finite q)
  show ?thesis
  proof (cases "of_int \<lfloor>q\<rfloor> = q \<and> 0 < q")
    case True
    then have e: "of_int \<lfloor>q\<rfloor> = q" and "0 < \<lfloor>q\<rfloor>" by linarith+
    with assms have ne: "i \<noteq> Finite (of_int \<lfloor>q\<rfloor>)" by blast
    have "i = Finite (of_int \<lfloor>q\<rfloor>)" unfolding e by (rule Finite)
    with ne show ?thesis by blast
  next
    case False
    with Finite show ?thesis
      by (simp only: isInteger.simps js_le_Finite) linarith
  qed
qed simp_all

lemma dollar_field_invalid:
  assumes "\<forall>k::int. 0 < k \<longrightarrow> i \<noteq> Finite (of_int k)"
  shows "dollar_field p (PropertyTarget pid parent) (NumberArg i)
           = Inr (p\<lparr>diagnostics := diagnostics p @ [fieldIndexDiagnostic ''invalid'' i pid]\<rparr>)"
  using not_positive_integer [OF assms]
  by (auto simp: dollar_field_def reportOnProgram_def reportDiagnostic_def
      fieldIndexDiagnostic_def)

lemma dollar_field_out_of_bounds:
  assumes "2 ^ 29 - 1 < (k::int)"
  shows "dollar_field p (PropertyTarget pid parent) (NumberArg (Finite (of_int k)))
           = Inr (p\<lparr>diagnostics := diagnostics p
                      @ [fieldIndexDiagnostic ''out-of-bounds'' (Finite (of_int k)) pid]\<rparr>)"
  using assms
  by (simp add: dollar_field_def reportOnProgram_def reportDiagnostic_def
      fieldIndexDiagnostic_def MAX_FIELD_INDEX_def js_le_Finite del: js_le.simps)

lemma dollar_field_in_range:
  assumes "0 < (k::int)" "k \<le> 2 ^ 29 - 1"
  shows "dollar_field p (PropertyTarget pid (Some ModelStatement)) (NumberArg (Finite (of_int k)))
           = Inr (p\<lparr>diagnostics :=
                       (if 19000 \<le> k \<and> k \<le> 19999
                        then diagnostics p @ [fieldIndexDiagnostic ''reserved'' (Finite (of_int k)) pid]
                        else diagnostics p),
                    fieldIndices := (fieldIndices p)(pid := Some (Finite (of_int k)))\<rparr>)"
  using assms
  by (simp add: dollar_field_def reportOnProgram_def reportDiagnostic_def
      fieldIndexDiagnostic_def MAX_FIELD_INDEX_def IMPLEMENTATION_RESERVED_RANGE_def
      js_le_Finite Let_def del: js_le.simps)

lemma toField_index:
  "toField n p property st = Some (f, st') \<Longrightarrow> field_index f = fieldIndices p (prop_id property)"
  by (cases n) (auto split: option.splits)

text \<open>
  C7, as the spec states it, fails for a property whose parent is not a model statement
  (a property of a model expression, such as a parameter of an operation): with an index
  in range the decorator throws and no index is recorded.
\<close>

theorem C7_parent_not_model_statement:
  "dollar_field greeterProgram (PropertyTarget 10 (Some ModelExpression)) (NumberArg (Finite 1))
     = Inl (InternalError ''model property parent is not a model'')"
  by (simp add: dollar_field_def MAX_FIELD_INDEX_def IMPLEMENTATION_RESERVED_RANGE_def)

text \<open>
  C7, amended. For a decorated model property: an index that is not a positive integer
  gets the \<open>field-index\<close> / \<open>invalid\<close> diagnostic and an integer above \<open>2^29 - 1\<close> gets
  \<open>out-of-bounds\<close>, and in both cases the map of indices is left as it was. For a
  property of a model statement, a positive integer up to \<open>2^29 - 1\<close> is recorded as the
  index of the property, with the \<open>reserved\<close> diagnostic if it lies in
  \<open>[19000, 19999]\<close> and with no diagnostic otherwise. \<open>toField\<close> gives the field the index
  recorded for its property.
\<close>

theorem C7_field_index:
  "((\<forall>k::int. 0 < k \<longrightarrow> i \<noteq> Finite (of_int k)) \<longrightarrow>
      dollar_field p (PropertyTarget pid parent) (NumberArg i)
        = Inr (p\<lparr>diagnostics := diagnostics p @ [fieldIndexDiagnostic ''invalid'' i pid]\<rparr>))
   \<and> (2 ^ 29 - 1 < (k::int) \<longrightarrow>
      dollar_field p (PropertyTarget pid parent) (NumberArg (Finite (of_int k)))
        = Inr (p\<lparr>diagnostics := diagnostics p
                   @ [fieldIndexDiagnostic ''out-of-bounds'' (Finite (of_int k)) pid]\<rparr>))
   \<and> (0 < k \<and> k \<le> 2 ^ 29 - 1 \<longrightarrow>
      dollar_field p (PropertyTarget pid (Some ModelStatement)) (NumberArg (Finite (of_int k)))
        = Inr (p\<lparr>diagnostics :=
                    (if 19000 \<le> k \<and> k \<le> 19999
                     then diagnostics p
                       @ [fieldIndexDiagnostic ''reserved'' (Finite (of_int k)) pid]
                     else diagnostics p),
                 fieldIndices := (fieldIndices p)(pid := Some (Finite (of_int k)))\<rparr>))
   \<and> (toField n (p\<lparr>fieldIndices := (fieldIndices p)(prop_id property := Some x)\<rparr>) property st
          = Some (f, st') \<longrightarrow> field_index f = Some x)"
  using dollar_field_invalid [of i p pid parent] dollar_field_out_of_bounds [of k p pid parent]
    dollar_field_in_range [of k p pid]
    toField_index [of n "p\<lparr>fieldIndices := (fieldIndices p)(prop_id property := Some x)\<rparr>"
      property st f st']
  by simp

theorem C7_field_index_witness:
  "dollar_field greeterProgram (PropertyTarget 3 None) (NumberArg (Finite 0))
     = Inr (greeterProgram\<lparr>diagnostics := [fieldIndexDiagnostic ''invalid'' (Finite 0) 3]\<rparr>)
   \<and> dollar_field greeterProgram (PropertyTarget 3 None) (NumberArg (Finite 536870912))
     = Inr (greeterProgram
              \<lparr>diagnostics := [fieldIndexDiagnostic ''out-of-bounds'' (Finite 536870912) 3]\<rparr>)
   \<and> dollar_field greeterProgram (PropertyTarget 3 (Some ModelStatement))
         (NumberArg (Finite 19500))
     = Inr (greeterProgram
              \<lparr>diagnostics := [fieldIndexDiagnostic ''reserved'' (Finite 19500) 3],
               fieldIndices := (fieldIndices greeterProgram)(3 := Some (Finite 19500))\<rparr>)
   \<and> toField 3 (greeterProgram\<lparr>fieldIndices :=
                    (fieldIndices greeterProgram)(3 := Some (Finite 19500))\<rparr>)
         \<lparr>prop_id = 3, prop_name = ''label'', prop_type = ModelT 0\<rparr> emptyState
     = Some (\<lparr>field_name = ''label'', field_type = PScalar ''string'',
              field_index = Some (Finite 19500)\<rparr>, emptyState)"
proof -
  have zero: "\<forall>k::int. 0 < k \<longrightarrow> Finite 0 \<noteq> Finite (of_int k)"
    by simp
  have run: "toField 3 (greeterProgram\<lparr>fieldIndices :=
                    (fieldIndices greeterProgram)(3 := Some (Finite 19500))\<rparr>)
         \<lparr>prop_id = 3, prop_name = ''label'', prop_type = ModelT 0\<rparr> emptyState
     = Some (\<lparr>field_name = ''label'', field_type = PScalar ''string'',
              field_index = Some (Finite 19500)\<rparr>, emptyState)"
    by (simp add: eval_nat_numeral greeterProgram_def greeterModels_def lookup_model_def
        intrinsicModel_def declaredModel_def scalarToProto_def tableLookup_def scalarTable_def
        scalar_def)
  have d: "diagnostics greeterProgram = []"
    by (simp add: greeterProgram_def)
  from C7_field_index [where i = "Finite 0" and k = 536870912 and p = greeterProgram and pid = 3
      and parent = None]
    C7_field_index [where k = 19500 and p = greeterProgram and pid = 3]
    zero run d
  show ?thesis
    by simp
qed

subsection \<open>The placeholder\<close>

lemma lookup_model_name:
  assumes "placeholderFree p" "lookup_model p i = Some m"
  shows "ref (model_name m) \<noteq> ref unreachable"
proof -
  from assms(2) have "m \<in> set (models p)"
    by (auto simp: lookup_model_def split: if_splits)
  with assms(1) show ?thesis
    by (auto simp: placeholderFree_def list_all_iff ref_def)
qed

lemma report_of_code:
  "diag_code d = c \<Longrightarrow> \<exists>d'. diag_code d' = c \<and> report d st = report d' st"
  by blast

lemma addModelAsInput_placeholder:
  assumes "placeholderFree p" "addModelAsInput n p model st = Some (ref unreachable, st')"
  shows "\<exists>d. diag_code d = ''unsupported-input-type'' \<and> st' = report d st"
  using assms(2) lookup_model_name [OF assms(1)]
  by (auto simp: addModelAsInput_def intro!: report_of_code
      split: list.splits cadl_type.splits option.splits)

lemma addReturnType_placeholder:
  assumes "placeholderFree p" "addReturnType n p t st = Some (ref unreachable, st')"
  shows "\<exists>d. diag_code d = ''unsupported-return-type'' \<and> st' = report d st"
  using assms(2) lookup_model_name [OF assms(1)]
  by (auto simp: addReturnType_def intro!: report_of_code
      split: cadl_type.splits option.splits)

lemma scalarToProto_placeholder:
  assumes "scalarToProto name t st = (ref unreachable, st')"
  shows "\<exists>d. diag_code d = ''unsupported-field-type'' \<and> st' = report d st"
proof (cases "tableLookup name")
  case None
  with assms show ?thesis by (auto simp: scalarToProto_def intro!: report_of_code)
next
  case (Some r)
  then have "r \<noteq> ref unreachable"
    by (auto simp: tableLookup_def scalarTable_def scalar_def ref_def
        split: option.splits if_splits)
  with Some assms show ?thesis by (simp add: scalarToProto_def)
qed

lemma intrinsicToProto_placeholder:
  assumes "intrinsicToProto n p name t st = Some (ref unreachable, st')"
    "\<not> (isMapInstance p t \<and>
        (case t of
           ModelT i \<Rightarrow>
             (case lookup_model p i of
                Some m \<Rightarrow> length (templateArguments m) < 2
              | None \<Rightarrow> False)
         | OtherT k \<Rightarrow> False))"
  shows "\<exists>d. diag_code d = ''unsupported-field-type'' \<and> st' = report d st"
proof (cases n)
  case 0
  with assms(1) show ?thesis by simp
next
  case (Suc n')
  show ?thesis
  proof (cases t)
    case (OtherT k)
    with assms(1) Suc show ?thesis
      by (auto dest: scalarToProto_placeholder)
  next
    case (ModelT i)
    with assms(1) Suc obtain m where m: "lookup_model p i = Some m"
      by (auto split: option.splits)
    show ?thesis
    proof (cases "model_name m = ''Map'' \<and> model_namespace m = Some ''Cadl''")
      case False
      with assms(1) Suc ModelT m show ?thesis
        by (auto dest: scalarToProto_placeholder)
    next
      case True
      with assms(2) ModelT m have "\<not> length (templateArguments m) < 2"
        by (simp add: isMapInstance_def)
      then obtain k v rest where "templateArguments m = k # v # rest"
        by (cases "templateArguments m"; cases "tl (templateArguments m)") auto
      with assms(1) Suc ModelT m True show ?thesis
        by (auto simp: templateArguments_def map_proto_def ref_def
            split: option.splits prod.splits)
    qed
  qed
qed

text \<open>
  When no model bears the name \<open><unreachable>\<close>: if \<open>addModelAsInput\<close>, \<open>addReturnType\<close>
  or \<open>addType\<close> returns the reference \<open><unreachable>\<close>, then it has reported exactly one
  diagnostic (of code \<open>unsupported-input-type\<close>, \<open>unsupported-return-type\<close> and
  \<open>unsupported-field-type\<close>) and has changed nothing else, unless \<open>addType\<close> was given a
  model that passes the test for \<open>Cadl.Map\<close> and has fewer than two template arguments.
\<close>

lemma placeholder_reported:
  assumes "placeholderFree p"
  shows "(addModelAsInput n p model st = Some (ref unreachable, st')
            \<longrightarrow> (\<exists>d. diag_code d = ''unsupported-input-type'' \<and> st' = report d st))
       \<and> (addReturnType n p t st = Some (ref unreachable, st')
            \<longrightarrow> (\<exists>d. diag_code d = ''unsupported-return-type'' \<and> st' = report d st))
       \<and> (addType n p t st = Some (ref unreachable, st') \<and> \<not> mapWithoutArguments p t
            \<longrightarrow> (\<exists>d. diag_code d = ''unsupported-field-type'' \<and> st' = report d st))"
proof (intro conjI impI)
  assume "addModelAsInput n p model st = Some (ref unreachable, st')"
  with assms show "\<exists>d. diag_code d = ''unsupported-input-type'' \<and> st' = report d st"
    by (rule addModelAsInput_placeholder)
next
  assume "addReturnType n p t st = Some (ref unreachable, st')"
  with assms show "\<exists>d. diag_code d = ''unsupported-return-type'' \<and> st' = report d st"
    by (rule addReturnType_placeholder)
next
  assume a: "addType n p t st = Some (ref unreachable, st') \<and> \<not> mapWithoutArguments p t"
  show "\<exists>d. diag_code d = ''unsupported-field-type'' \<and> st' = report d st"
  proof (cases n)
    case 0
    with a show ?thesis by simp
  next
    case (Suc n')
    show ?thesis
    proof (cases "intrinsics p t")
      case (Some name)
      with a Suc have "intrinsicToProto n' p name t st = Some (ref unreachable, st')"
        by simp
      moreover from a Some have "\<not> (isMapInstance p t \<and>
        (case t of
           ModelT i \<Rightarrow>
             (case lookup_model p i of
                Some m \<Rightarrow> length (templateArguments m) < 2
              | None \<Rightarrow> False)
         | OtherT k \<Rightarrow> False))"
        by (simp add: mapWithoutArguments_def)
      ultimately show ?thesis by (rule intrinsicToProto_placeholder)
    next
      case None
      with a Suc lookup_model_name [OF assms] show ?thesis
        by (auto intro!: report_of_code split: cadl_type.splits option.splits)
    qed
  qed
qed

lemma placeholder_reported_example:
  "placeholderFree scalarsProgram
   \<and> addType 2 scalarsProgram (ModelT 6) emptyState
       = Some (ref unreachable, report (unknownIntrinsic ''plainDate'' (ModelT 6)) emptyState)
   \<and> \<not> mapWithoutArguments scalarsProgram (ModelT 6)
   \<and> (\<exists>d. diag_code d = ''unsupported-field-type''
          \<and> report (unknownIntrinsic ''plainDate'' (ModelT 6)) emptyState = report d emptyState)
   \<and> addReturnType 0 scalarsProgram (OtherT KUnion) emptyState
       = Some (ref unreachable,
               report \<lparr>diag_code = ''unsupported-return-type'', diag_messageId = None,
                       diag_format = [], diag_target = OnType (OtherT KUnion)\<rparr> emptyState)
   \<and> (\<exists>d. diag_code d = ''unsupported-return-type''
          \<and> report \<lparr>diag_code = ''unsupported-return-type'', diag_messageId = None,
                      diag_format = [], diag_target = OnType (OtherT KUnion)\<rparr> emptyState
              = report d emptyState)"
proof -
  have free: "placeholderFree scalarsProgram"
    by (simp add: placeholderFree_def scalarsProgram_def bareProgram_def intrinsicModel_def
        mapInstance_def unreachable_def)
  have run: "addType 2 scalarsProgram (ModelT 6) emptyState
       = Some (ref unreachable, report (unknownIntrinsic ''plainDate'' (ModelT 6)) emptyState)"
    by (simp add: eval_nat_numeral scalarsProgram_def bareProgram_def lookup_model_def
        mapInstance_def intrinsicModel_def scalarToProto_def tableLookup_def scalarTable_def
        scalar_def objectPrototypeNames_def unknownIntrinsic_def)
  have nomap: "\<not> mapWithoutArguments scalarsProgram (ModelT 6)"
    by (simp add: mapWithoutArguments_def isMapInstance_def scalarsProgram_def bareProgram_def
        lookup_model_def mapInstance_def intrinsicModel_def)
  have ret: "addReturnType 0 scalarsProgram (OtherT KUnion) emptyState
       = Some (ref unreachable,
               report \<lparr>diag_code = ''unsupported-return-type'', diag_messageId = None,
                       diag_format = [], diag_target = OnType (OtherT KUnion)\<rparr> emptyState)"
    by (simp add: addReturnType_def)
  from placeholder_reported [OF free, where n = 2 and t = "ModelT 6" and st = emptyState
      and st' = "report (unknownIntrinsic ''plainDate'' (ModelT 6)) emptyState"] run nomap
  have a: "\<exists>d. diag_code d = ''unsupported-field-type''
          \<and> report (unknownIntrinsic ''plainDate'' (ModelT 6)) emptyState = report d emptyState"
    by blast
  from placeholder_reported [OF free, where n = 0 and t = "OtherT KUnion" and st = emptyState
      and st' = "report \<lparr>diag_code = ''unsupported-return-type'', diag_messageId = None,
                       diag_format = [], diag_target = OnType (OtherT KUnion)\<rparr> emptyState"] ret
  have b: "\<exists>d. diag_code d = ''unsupported-return-type''
          \<and> report \<lparr>diag_code = ''unsupported-return-type'', diag_messageId = None,
                      diag_format = [], diag_target = OnType (OtherT KUnion)\<rparr> emptyState
              = report d emptyState"
    by blast
  from free run nomap a ret b show ?thesis by (intro conjI)
qed

text \<open>
  C5. The one return of the placeholder that is silent: for a model that passes the test
  of \<open>intrinsicToProto\<close> for \<open>Cadl.Map\<close> (the names \<open>Map\<close> and \<open>Cadl\<close>, nothing else) and has
  fewer than two template arguments, \<open>addType\<close> returns \<open><unreachable>\<close> and the state is
  the one it was given: no diagnostic is reported, while every other path that returns
  the placeholder reports one.
\<close>

theorem C5_silent_placeholder:
  "addType 2 scalarsProgram (ModelT 4) emptyState = Some (ref unreachable, emptyState)"
  by (simp add: eval_nat_numeral scalarsProgram_def bareProgram_def lookup_model_def
      mapInstance_def intrinsicModel_def)

subsection \<open>The effect of a call on the state\<close>

lemma messageNames_append [simp]:
  "messageNames (xs @ ys) = messageNames xs @ messageNames ys"
  by (induction xs rule: messageNames.induct) auto

lemma serviceDeclarations_append [simp]:
  "serviceDeclarations (xs @ ys) = serviceDeclarations xs @ serviceDeclarations ys"
  by (induction xs rule: serviceDeclarations.induct) auto

lemma effect_refl: "effect p st st"
  unfolding effect_def
  by (rule exI [of _ "[]"], rule exI [of _ "[]"], rule exI [of _ "[]"]) simp

lemma effect_trans:
  assumes "effect p st1 st2" "effect p st2 st3"
  shows "effect p st1 st3"
proof -
  from assms(1) obtain new1 msgs1 ds1 where
    1: "visitedTypes st2 = visitedTypes st1 @ new1" "declarations st2 = declarations st1 @ msgs1"
       "diags st2 = diags st1 @ ds1" "serviceDeclarations msgs1 = []"
       "mset (messageNames msgs1) = mset (map (modelName p) new1)"
       "list_all (\<lambda>i. i < length (models p)) new1"
       "distinct (visitedTypes st1) \<longrightarrow> distinct (visitedTypes st2)"
    unfolding effect_def by blast
  from assms(2) obtain new2 msgs2 ds2 where
    2: "visitedTypes st3 = visitedTypes st2 @ new2" "declarations st3 = declarations st2 @ msgs2"
       "diags st3 = diags st2 @ ds2" "serviceDeclarations msgs2 = []"
       "mset (messageNames msgs2) = mset (map (modelName p) new2)"
       "list_all (\<lambda>i. i < length (models p)) new2"
       "distinct (visitedTypes st2) \<longrightarrow> distinct (visitedTypes st3)"
    unfolding effect_def by blast
  have "visitedTypes st3 = visitedTypes st1 @ (new1 @ new2)"
    "declarations st3 = declarations st1 @ (msgs1 @ msgs2)"
    "diags st3 = diags st1 @ (ds1 @ ds2)"
    "serviceDeclarations (msgs1 @ msgs2) = []"
    "mset (messageNames (msgs1 @ msgs2)) = mset (map (modelName p) (new1 @ new2))"
    "list_all (\<lambda>i. i < length (models p)) (new1 @ new2)"
    by (simp_all add: 1 2)
  moreover from 1(7) 2(7) have "distinct (visitedTypes st1) \<longrightarrow> distinct (visitedTypes st3)"
    by blast
  ultimately show ?thesis
    unfolding effect_def by blast
qed

lemma effect_report: "effect p st (report d st)"
  unfolding effect_def
  by (rule exI [of _ "[]"], rule exI [of _ "[]"], rule exI [of _ "[d]"])
     (simp add: report_def reportDiagnostic_def)

lemma scalarToProto_effect: "scalarToProto name t st = (r, st') \<Longrightarrow> effect p st st'"
  by (auto simp: scalarToProto_def effect_refl effect_report split: option.splits)

lemma toMessage_result:
  "toMessage n p m st = Some (r, st') \<Longrightarrow>
   m < length (models p) \<and> (\<exists>fs. r = Message (modelName p m) fs)"
  by (cases n) (auto simp: lookup_model_def modelName_def split: option.splits if_splits)

lemma effect_visit:
  assumes e: "effect p (st\<lparr>visitedTypes := visitedTypes st @ [m]\<rparr>) st1"
    and m: "m \<notin> set (visitedTypes st)" "m < length (models p)"
  shows "effect p st (st1\<lparr>declarations := declarations st1 @ [Message (modelName p m) fs]\<rparr>)"
proof -
  from e obtain new msgs ds where
    1: "visitedTypes st1 = (visitedTypes st @ [m]) @ new" "declarations st1 = declarations st @ msgs"
       "diags st1 = diags st @ ds" "serviceDeclarations msgs = []"
       "mset (messageNames msgs) = mset (map (modelName p) new)"
       "list_all (\<lambda>i. i < length (models p)) new"
       "distinct (visitedTypes st @ [m]) \<longrightarrow> distinct (visitedTypes st1)"
    unfolding effect_def by auto
  show ?thesis
    unfolding effect_def
    by (rule exI [of _ "m # new"], rule exI [of _ "msgs @ [Message (modelName p m) fs]"],
        rule exI [of _ ds]) (use 1 m in simp)
qed

lemma effects:
  "(\<forall>m st st'. visitType n p m st = Some st' \<longrightarrow> effect p st st')
   \<and> (\<forall>m st r st'. toMessage n p m st = Some (r, st') \<longrightarrow> effect p st st')
   \<and> (\<forall>ps st r st'. toFields n p ps st = Some (r, st') \<longrightarrow> effect p st st')
   \<and> (\<forall>pr st r st'. toField n p pr st = Some (r, st') \<longrightarrow> effect p st st')
   \<and> (\<forall>t st r st'. addType n p t st = Some (r, st') \<longrightarrow> effect p st st')
   \<and> (\<forall>name t st r st'. intrinsicToProto n p name t st = Some (r, st') \<longrightarrow> effect p st st')"
proof (induction n)
  case 0
  show ?case by simp
next
  case (Suc n)
  note visit = Suc.IH [THEN conjunct1, rule_format]
  note message = Suc.IH [THEN conjunct2, THEN conjunct1, rule_format]
  note fields = Suc.IH [THEN conjunct2, THEN conjunct2, THEN conjunct1, rule_format]
  note field = Suc.IH [THEN conjunct2, THEN conjunct2, THEN conjunct2, THEN conjunct1, rule_format]
  note type = Suc.IH [THEN conjunct2, THEN conjunct2, THEN conjunct2, THEN conjunct2,
      THEN conjunct1, rule_format]
  note intrinsic = Suc.IH [THEN conjunct2, THEN conjunct2, THEN conjunct2, THEN conjunct2,
      THEN conjunct2, rule_format]
  have 1: "effect p st st'" if "visitType (Suc n) p m st = Some st'" for m st st'
  proof (cases "m \<in> set (visitedTypes st)")
    case True
    with that show ?thesis by (simp add: effect_refl)
  next
    case False
    with that obtain msg st1 where
      run: "toMessage n p m (st\<lparr>visitedTypes := visitedTypes st @ [m]\<rparr>) = Some (msg, st1)"
      and st': "st' = st1\<lparr>declarations := declarations st1 @ [msg]\<rparr>"
      by (auto split: option.splits)
    from toMessage_result [OF run] obtain fs where
      m: "m < length (models p)" and msg: "msg = Message (modelName p m) fs" by blast
    from effect_visit [OF message [OF run] False m] show ?thesis
      by (simp add: st' msg)
  qed
  have 2: "effect p st st'" if "toMessage (Suc n) p m st = Some (r, st')" for m st r st'
    using that by (auto split: option.splits dest: fields)
  have 3: "effect p st st'" if "toFields (Suc n) p ps st = Some (r, st')" for ps st r st'
  proof (cases ps)
    case Nil
    with that show ?thesis by (simp add: effect_refl)
  next
    case (Cons x xs)
    with that obtain f st1 fs where "toField n p x st = Some (f, st1)"
      "toFields n p xs st1 = Some (fs, st')"
      by (auto split: option.splits)
    then show ?thesis by (blast intro: effect_trans field fields)
  qed
  have 4: "effect p st st'" if "toField (Suc n) p pr st = Some (r, st')" for pr st r st'
    using that by (auto split: option.splits dest: type)
  have 5: "effect p st st'" if "addType (Suc n) p t st = Some (r, st')" for t st r st'
    using that
    by (auto split: option.splits cadl_type.splits dest: intrinsic visit simp: effect_report)
  have 6: "effect p st st'" if "intrinsicToProto (Suc n) p name t st = Some (r, st')"
    for name t st r st'
  proof (cases t)
    case (OtherT k)
    with that show ?thesis by (auto dest: scalarToProto_effect)
  next
    case (ModelT i)
    with that obtain m where m: "lookup_model p i = Some m" by (auto split: option.splits)
    show ?thesis
    proof (cases "model_name m = ''Map'' \<and> model_namespace m = Some ''Cadl''")
      case False
      with that ModelT m show ?thesis by (auto dest: scalarToProto_effect)
    next
      case True
      show ?thesis
      proof (cases "templateArguments m")
        case Nil
        with that ModelT m True show ?thesis
          by (simp add: templateArguments_def effect_refl)
      next
        case (Cons k rest)
        show ?thesis
        proof (cases rest)
          case Nil
          with that ModelT m True Cons show ?thesis
            by (simp add: templateArguments_def effect_refl)
        next
          case (Cons v rest')
          with that ModelT m True \<open>templateArguments m = k # rest\<close>
          obtain kp st1 vp where "addType n p k st = Some (kp, st1)"
            "addType n p v st1 = Some (vp, st')"
            by (auto simp: templateArguments_def split: option.splits)
          then show ?thesis by (blast intro: effect_trans type)
        qed
      qed
    qed
  qed
  from 1 2 3 4 5 6 show ?case by blast
qed

subsection \<open>More fuel gives the same result\<close>

lemma visitType_step:
  assumes "\<And>m st r. toMessage n p m st = Some r \<Longrightarrow> toMessage n' p m st = Some r"
    and "visitType (Suc n) p m st = Some r"
  shows "visitType (Suc n') p m st = Some r"
  using assms(2) by (auto split: option.splits if_splits dest!: assms(1))

lemma toMessage_step:
  assumes "\<And>ps st r. toFields n p ps st = Some r \<Longrightarrow> toFields n' p ps st = Some r"
    and "toMessage (Suc n) p m st = Some r"
  shows "toMessage (Suc n') p m st = Some r"
  using assms(2) by (auto split: option.splits if_splits dest!: assms(1))

lemma toFields_step:
  assumes "\<And>ps st r. toFields n p ps st = Some r \<Longrightarrow> toFields n' p ps st = Some r"
    and "\<And>pr st r. toField n p pr st = Some r \<Longrightarrow> toField n' p pr st = Some r"
    and "toFields (Suc n) p ps st = Some r"
  shows "toFields (Suc n') p ps st = Some r"
  using assms(3) by (cases ps) (auto split: option.splits dest!: assms(1,2))

lemma toField_step:
  assumes "\<And>t st r. addType n p t st = Some r \<Longrightarrow> addType n' p t st = Some r"
    and "toField (Suc n) p pr st = Some r"
  shows "toField (Suc n') p pr st = Some r"
  using assms(2) by (auto split: option.splits dest!: assms(1))

lemma addType_step:
  assumes "\<And>m st r. visitType n p m st = Some r \<Longrightarrow> visitType n' p m st = Some r"
    and "\<And>name t st r. intrinsicToProto n p name t st = Some r
          \<Longrightarrow> intrinsicToProto n' p name t st = Some r"
    and "addType (Suc n) p t st = Some r"
  shows "addType (Suc n') p t st = Some r"
  using assms(3) by (auto split: option.splits cadl_type.splits dest!: assms(1,2))

lemma intrinsicToProto_step:
  assumes "\<And>t st r. addType n p t st = Some r \<Longrightarrow> addType n' p t st = Some r"
    and "intrinsicToProto (Suc n) p name t st = Some r"
  shows "intrinsicToProto (Suc n') p name t st = Some r"
  using assms(2)
  by (auto split: option.splits cadl_type.splits list.splits if_splits dest!: assms(1))

lemma fuel_mono_all:
  "\<forall>n'\<ge>n.
     (\<forall>m st r. visitType n p m st = Some r \<longrightarrow> visitType n' p m st = Some r)
   \<and> (\<forall>m st r. toMessage n p m st = Some r \<longrightarrow> toMessage n' p m st = Some r)
   \<and> (\<forall>ps st r. toFields n p ps st = Some r \<longrightarrow> toFields n' p ps st = Some r)
   \<and> (\<forall>pr st r. toField n p pr st = Some r \<longrightarrow> toField n' p pr st = Some r)
   \<and> (\<forall>t st r. addType n p t st = Some r \<longrightarrow> addType n' p t st = Some r)
   \<and> (\<forall>name t st r. intrinsicToProto n p name t st = Some r
         \<longrightarrow> intrinsicToProto n' p name t st = Some r)"
proof (induction n)
  case 0
  show ?case by simp
next
  case (Suc n)
  show ?case
  proof (intro allI impI)
    fix n' assume "Suc n \<le> n'"
    then obtain k where n': "n' = Suc k" and k: "n \<le> k" by (cases n') auto
    note IH = Suc.IH [rule_format, OF k]
    note visit = IH [THEN conjunct1, rule_format]
    note message = IH [THEN conjunct2, THEN conjunct1, rule_format]
    note fields = IH [THEN conjunct2, THEN conjunct2, THEN conjunct1, rule_format]
    note field = IH [THEN conjunct2, THEN conjunct2, THEN conjunct2, THEN conjunct1, rule_format]
    note type = IH [THEN conjunct2, THEN conjunct2, THEN conjunct2, THEN conjunct2,
        THEN conjunct1, rule_format]
    note intrinsic = IH [THEN conjunct2, THEN conjunct2, THEN conjunct2, THEN conjunct2,
        THEN conjunct2, rule_format]
    show "(\<forall>m st r. visitType (Suc n) p m st = Some r \<longrightarrow> visitType n' p m st = Some r)
   \<and> (\<forall>m st r. toMessage (Suc n) p m st = Some r \<longrightarrow> toMessage n' p m st = Some r)
   \<and> (\<forall>ps st r. toFields (Suc n) p ps st = Some r \<longrightarrow> toFields n' p ps st = Some r)
   \<and> (\<forall>pr st r. toField (Suc n) p pr st = Some r \<longrightarrow> toField n' p pr st = Some r)
   \<and> (\<forall>t st r. addType (Suc n) p t st = Some r \<longrightarrow> addType n' p t st = Some r)
   \<and> (\<forall>name t st r. intrinsicToProto (Suc n) p name t st = Some r
         \<longrightarrow> intrinsicToProto n' p name t st = Some r)"
      unfolding n'
      by (intro conjI allI impI)
         (erule visitType_step [rotated] toMessage_step [rotated] toFields_step [rotated 2]
            toField_step [rotated] addType_step [rotated 2] intrinsicToProto_step [rotated],
          (erule visit message fields field type intrinsic)+)+
  qed
qed

lemma visitType_mono:
  "visitType n p m st = Some r \<Longrightarrow> n \<le> n' \<Longrightarrow> visitType n' p m st = Some r"
  using fuel_mono_all [of n p] by blast

lemma toFields_mono:
  "toFields n p ps st = Some r \<Longrightarrow> n \<le> n' \<Longrightarrow> toFields n' p ps st = Some r"
  using fuel_mono_all [of n p] by blast

lemma toField_mono:
  "toField n p pr st = Some r \<Longrightarrow> n \<le> n' \<Longrightarrow> toField n' p pr st = Some r"
  using fuel_mono_all [of n p] by blast

lemma toMessage_mono:
  "toMessage n p m st = Some r \<Longrightarrow> n \<le> n' \<Longrightarrow> toMessage n' p m st = Some r"
  using fuel_mono_all [of n p] by blast

lemma addType_mono:
  "addType n p t st = Some r \<Longrightarrow> n \<le> n' \<Longrightarrow> addType n' p t st = Some r"
  using fuel_mono_all [of n p] by blast

subsection \<open>Enough fuel gives a result\<close>

lemma visitType_effect: "visitType n p m st = Some st' \<Longrightarrow> effect p st st'"
  by (rule effects [THEN conjunct1, rule_format])

lemma toFields_effect: "toFields n p ps st = Some (r, st') \<Longrightarrow> effect p st st'"
  by (rule effects [THEN conjunct2, THEN conjunct2, THEN conjunct1, rule_format])

lemma toField_effect: "toField n p pr st = Some (r, st') \<Longrightarrow> effect p st st'"
  by (rule effects [THEN conjunct2, THEN conjunct2, THEN conjunct2, THEN conjunct1,
        rule_format])

lemma addType_effect: "addType n p t st = Some (r, st') \<Longrightarrow> effect p st st'"
  by (rule effects [THEN conjunct2, THEN conjunct2, THEN conjunct2, THEN conjunct2,
        THEN conjunct1, rule_format])

lemma unvisited_effect:
  assumes "effect p st st'"
  shows "unvisited p st' \<le> unvisited p st"
proof -
  from assms have "set (visitedTypes st) \<subseteq> set (visitedTypes st')"
    by (auto simp: effect_def)
  then show ?thesis
    unfolding unvisited_def by (intro card_mono) auto
qed

lemma unvisited_mark:
  assumes "m < length (models p)" "m \<notin> set (visitedTypes st)"
  shows "unvisited p (st\<lparr>visitedTypes := visitedTypes st @ [m]\<rparr>) < unvisited p st"
  unfolding unvisited_def using assms
  by (intro psubset_card_mono) auto

lemma closedStore_properties:
  assumes "closedStore p" "m < length (models p)"
  shows "list_all (\<lambda>pr. inStore p (prop_type pr)) (model_properties (models p ! m))"
  using assms by (simp add: closedStore_def list_all_length)

lemma closedStore_arguments:
  assumes "closedStore p" "m < length (models p)"
  shows "list_all (inStore p) (templateArguments (models p ! m))"
  using assms by (simp add: closedStore_def list_all_length)

lemma toFields_exists:
  assumes type: "\<And>t st. inStore p t \<Longrightarrow> unvisited p st \<le> j
      \<Longrightarrow> \<exists>n r. addType n p t st = Some r"
  shows "list_all (\<lambda>pr. inStore p (prop_type pr)) ps \<Longrightarrow> unvisited p st \<le> j
      \<Longrightarrow> \<exists>n r. toFields n p ps st = Some r"
proof (induction ps arbitrary: st)
  case Nil
  have "toFields (Suc 0) p [] st = Some ([], st)" by simp
  then show ?case by blast
next
  case (Cons x xs)
  from Cons.prems(1) have x: "inStore p (prop_type x)"
    and xs: "list_all (\<lambda>pr. inStore p (prop_type pr)) xs" by simp_all
  from type [OF x Cons.prems(2)] obtain n1 t st1 where
    1: "addType n1 p (prop_type x) st = Some (t, st1)"
    by (metis surj_pair)
  from unvisited_effect [OF addType_effect [OF 1]] Cons.prems(2)
  have "unvisited p st1 \<le> j" by simp
  from Cons.IH [OF xs this] obtain n2 fs st2 where
    2: "toFields n2 p xs st1 = Some (fs, st2)"
    by (metis surj_pair)
  define N where "N = max (Suc n1) n2"
  have "addType (N - 1) p (prop_type x) st = Some (t, st1)"
    by (rule addType_mono [OF 1]) (simp add: N_def)
  then have "toField N p x st
      = Some (\<lparr>field_name = prop_name x, field_type = t,
               field_index = fieldIndices p (prop_id x)\<rparr>, st1)"
    by (cases N) (simp_all add: N_def)
  moreover have "toFields N p xs st1 = Some (fs, st2)"
    by (rule toFields_mono [OF 2]) (simp add: N_def)
  ultimately have "toFields (Suc N) p (x # xs) st
      = Some (\<lparr>field_name = prop_name x, field_type = t,
               field_index = fieldIndices p (prop_id x)\<rparr> # fs, st2)"
    by simp
  then show ?case by blast
qed

lemma visitType_exists:
  assumes closed: "closedStore p"
    and fields: "\<And>ps st. list_all (\<lambda>pr. inStore p (prop_type pr)) ps
      \<Longrightarrow> unvisited p st < k \<Longrightarrow> \<exists>n r. toFields n p ps st = Some r"
    and m: "m < length (models p)" and k: "unvisited p st \<le> k"
  shows "\<exists>n r. visitType n p m st = Some r"
proof (cases "m \<in> set (visitedTypes st)")
  case True
  then have "visitType (Suc 0) p m st = Some st" by simp
  then show ?thesis by blast
next
  case False
  let ?st = "st\<lparr>visitedTypes := visitedTypes st @ [m]\<rparr>"
  from unvisited_mark [OF m False] k have "unvisited p ?st < k" by simp
  with fields [OF closedStore_properties [OF closed m]] obtain n fs st1 where
    "toFields n p (model_properties (models p ! m)) ?st = Some (fs, st1)"
    by (metis surj_pair)
  with m False have "visitType (Suc (Suc n)) p m st
      = Some (st1\<lparr>declarations := declarations st1
                     @ [Message (model_name (models p ! m)) fs]\<rparr>)"
    by (simp add: lookup_model_def)
  then show ?thesis by blast
qed


lemma templateRanked_arguments:
  assumes "templateRanked p rk" "i < length (models p)" "intrinsics p (ModelT i) = Some name"
    "model_name (models p ! i) = ''Map''" "model_namespace (models p ! i) = Some ''Cadl''"
    "templateArguments (models p ! i) = k # v # rest"
  shows "templateDepth rk k < templateDepth rk (ModelT i)"
    and "templateDepth rk v < templateDepth rk (ModelT i)"
proof -
  from assms(1,2) have "intrinsics p (ModelT i) = None \<or> \<not> isMapInstance p (ModelT i) \<or>
      list_all (\<lambda>t. case t of ModelT j \<Rightarrow> rk j < rk i | OtherT k \<Rightarrow> True)
        (take 2 (templateArguments (models p ! i)))"
    by (simp add: templateRanked_def list_all_iff)
  with assms(2-6) have "list_all (\<lambda>t. case t of ModelT j \<Rightarrow> rk j < rk i | OtherT k \<Rightarrow> True) [k, v]"
    by (simp add: isMapInstance_def lookup_model_def)
  then show "templateDepth rk k < templateDepth rk (ModelT i)"
    and "templateDepth rk v < templateDepth rk (ModelT i)"
    by (auto simp: templateDepth_def split: cadl_type.splits)
qed

lemma addType_exists:
  assumes closed: "closedStore p" and ranked: "templateRanked p rk"
    and visit: "\<And>m st. m < length (models p) \<Longrightarrow> unvisited p st \<le> k
      \<Longrightarrow> \<exists>n r. visitType n p m st = Some r"
  shows "inStore p t \<Longrightarrow> unvisited p st \<le> k \<Longrightarrow> \<exists>n r. addType n p t st = Some r"
proof (induction "templateDepth rk t" arbitrary: t st rule: less_induct)
  case less
  show ?case
  proof (cases t)
    case (OtherT kind)
    then have "addType (Suc (Suc 0)) p t st \<noteq> None"
      by (simp split: option.splits)
    then show ?thesis by blast
  next
    case (ModelT i)
    with less.prems(1) have i: "i < length (models p)" by (simp add: inStore_def)
    show ?thesis
    proof (cases "intrinsics p t")
      case None
      from visit [OF i less.prems(2)] obtain n st1 where "visitType n p i st = Some st1"
        by blast
      with None ModelT i have "addType (Suc n) p t st
          = Some (ref (model_name (models p ! i)), st1)"
        by (simp add: lookup_model_def)
      then show ?thesis by blast
    next
      case (Some name)
      let ?m = "models p ! i"
      show ?thesis
      proof (cases "model_name ?m = ''Map'' \<and> model_namespace ?m = Some ''Cadl''")
        case False
        with Some ModelT i have "addType (Suc (Suc 0)) p t st = Some (scalarToProto name t st)"
          by (auto simp: lookup_model_def)
        then show ?thesis by blast
      next
        case True
        show ?thesis
        proof (cases "\<exists>k v rest. templateArguments ?m = k # v # rest")
          case False
          then have "(case templateArguments ?m of
                        keyType # valueType # rest \<Rightarrow> undefined keyType valueType
                      | _ \<Rightarrow> Some (ref unreachable, st)) = Some (ref unreachable, st)"
            by (auto split: list.splits)
          with False Some ModelT i True
          have "addType (Suc (Suc 0)) p t st = Some (ref unreachable, st)"
            by (auto simp: lookup_model_def templateArguments_def split: list.splits option.splits)
          then show ?thesis by blast
        next
          case True': True
          then obtain kt vt rest where args: "templateArguments ?m = kt # vt # rest" by blast
          from closedStore_arguments [OF closed i] args
          have kin: "inStore p kt" and vin: "inStore p vt" by simp_all
          from templateRanked_arguments [OF ranked i _ _ _ args] Some ModelT True
          have kd: "templateDepth rk kt < templateDepth rk t"
            and vd: "templateDepth rk vt < templateDepth rk t"
            by simp_all
          from less.hyps [OF kd kin less.prems(2)] obtain n1 kp st1 where
            1: "addType n1 p kt st = Some (kp, st1)" by (metis surj_pair)
          from unvisited_effect [OF addType_effect [OF 1]] less.prems(2)
          have "unvisited p st1 \<le> k" by simp
          from less.hyps [OF vd vin this] obtain n2 vp st2 where
            2: "addType n2 p vt st1 = Some (vp, st2)" by (metis surj_pair)
          define N where "N = max n1 n2"
          have "addType N p kt st = Some (kp, st1)" "addType N p vt st1 = Some (vp, st2)"
            by (rule addType_mono [OF 1], simp add: N_def)
               (rule addType_mono [OF 2], simp add: N_def)
          with Some ModelT i True args
          have "addType (Suc (Suc N)) p t st = Some (map_proto (second kp) vp, st2)"
            by (simp add: lookup_model_def templateArguments_def split: option.splits)
          then show ?thesis by blast
        qed
      qed
    qed
  qed
qed

lemma exists_fuel:
  assumes closed: "closedStore p" and ranked: "templateRanked p rk"
  shows "unvisited p st \<le> k \<Longrightarrow>
    (m < length (models p) \<longrightarrow> (\<exists>n r. visitType n p m st = Some r))
    \<and> (inStore p t \<longrightarrow> (\<exists>n r. addType n p t st = Some r))"
proof (induction k arbitrary: st m t rule: less_induct)
  case (less k)
  have fields: "\<exists>n r. toFields n p ps st = Some r"
    if "list_all (\<lambda>pr. inStore p (prop_type pr)) ps" "unvisited p st < k" for ps st
  proof (rule toFields_exists [OF _ that(1), of "unvisited p st"])
    fix t st'
    assume "inStore p t" "unvisited p st' \<le> unvisited p st"
    with less.IH [OF that(2), of st' undefined t]
    show "\<exists>n r. addType n p t st' = Some r" by blast
  qed simp
  have visit: "\<exists>n r. visitType n p m st = Some r"
    if "m < length (models p)" "unvisited p st \<le> k" for m st
    using visitType_exists [OF closed fields that] by blast
  have type: "\<exists>n r. addType n p t st = Some r"
    if "inStore p t" "unvisited p st \<le> k" for t st
    using addType_exists [OF closed ranked visit that] by blast
  from visit type less.prems show ?case by blast
qed

lemma unvisited_le: "unvisited p st \<le> length (models p)"
proof -
  have "card ({..<length (models p)} - set (visitedTypes st)) \<le> card {..<length (models p)}"
    by (intro card_mono) auto
  then show ?thesis by (simp add: unvisited_def)
qed

lemma visitType_terminates:
  assumes "closedStore p" "templateRanked p rk" "m < length (models p)"
  shows "\<exists>n r. visitType n p m st = Some r"
  using exists_fuel [OF assms(1,2) unvisited_le] assms(3) by blast

subsection \<open>Termination of the pass\<close>

lemma addModelAsInput_mono:
  "addModelAsInput n p model st = Some r \<Longrightarrow> n \<le> n' \<Longrightarrow> addModelAsInput n' p model st = Some r"
  by (auto simp: addModelAsInput_def split: list.splits cadl_type.splits option.splits
      dest: visitType_mono)

lemma addReturnType_mono:
  "addReturnType n p t st = Some r \<Longrightarrow> n \<le> n' \<Longrightarrow> addReturnType n' p t st = Some r"
  by (auto simp: addReturnType_def split: cadl_type.splits option.splits dest: visitType_mono)

lemma toMethodFromOperation_mono:
  assumes "toMethodFromOperation n p operation st = Some r" "n \<le> n'"
  shows "toMethodFromOperation n' p operation st = Some r"
proof -
  from assms(1) obtain input st1 returns st2 where
    1: "addModelAsInput n p (op_parameters operation) st = Some (input, st1)"
    and 2: "addReturnType n p (op_returnType operation) st1 = Some (returns, st2)"
    and r: "r = (\<lparr>method_name = op_name operation, method_input = input,
                  method_returns = returns\<rparr>, st2)"
    by (auto simp: toMethodFromOperation_def split: option.splits)
  from addModelAsInput_mono [OF 1 assms(2)] addReturnType_mono [OF 2 assms(2)] r
  show ?thesis by (simp add: toMethodFromOperation_def)
qed

lemma toMethods_mono:
  "toMethods n p operations st = Some r \<Longrightarrow> n \<le> n' \<Longrightarrow> toMethods n' p operations st = Some r"
proof (induction operations arbitrary: st r)
  case Nil
  then show ?case by simp
next
  case (Cons operation operations)
  from Cons.prems(1) obtain m st1 ms st2 where
    1: "toMethodFromOperation n p operation st = Some (m, st1)"
    and 2: "toMethods n p operations st1 = Some (ms, st2)" and r: "r = (m # ms, st2)"
    by (auto split: option.splits)
  from toMethodFromOperation_mono [OF 1 Cons.prems(2)] Cons.IH [OF 2 Cons.prems(2)] r
  show ?case by simp
qed

lemma addServices_mono:
  "addServices n p ifaces st = Some r \<Longrightarrow> n \<le> n' \<Longrightarrow> addServices n' p ifaces st = Some r"
proof (induction ifaces arbitrary: st)
  case Nil
  then show ?case by simp
next
  case (Cons iface ifaces)
  from Cons.prems(1) obtain ms st1 where
    1: "toMethods n p (iface_operations iface) st = Some (ms, st1)"
    and 2: "addServices n p ifaces
          (st1\<lparr>declarations := declarations st1 @ [Service (iface_name iface) ms]\<rparr>) = Some r"
    by (auto split: option.splits)
  from toMethods_mono [OF 1 Cons.prems(2)] Cons.IH [OF 2 Cons.prems(2)]
  show ?case by simp
qed

lemma declarationsFromNamespace_mono:
  "declarationsFromNamespace n p ns ds = Some r \<Longrightarrow> n \<le> n'
   \<Longrightarrow> declarationsFromNamespace n' p ns ds = Some r"
  by (auto simp: declarationsFromNamespace_def runNamespace_def split: option.splits
      dest: addServices_mono)

lemma filesFromPackages_mono:
  "filesFromPackages n p pkgs ds = Some r \<Longrightarrow> n \<le> n' \<Longrightarrow> filesFromPackages n' p pkgs ds = Some r"
proof (induction pkgs arbitrary: ds r)
  case Nil
  then show ?case by simp
next
  case (Cons pkg pkgs)
  obtain ns name where pkg: "pkg = (ns, name)" by (cases pkg)
  from Cons.prems(1) obtain decls ds1 files ds2 where
    1: "declarationsFromNamespace n p ns ds = Some (decls, ds1)"
    and 2: "filesFromPackages n p pkgs ds1 = Some (files, ds2)"
    and r: "r = (\<lparr>file_package = Some name, file_declarations = decls\<rparr> # files, ds2)"
    by (auto simp: pkg split: option.splits)
  from declarationsFromNamespace_mono [OF 1 Cons.prems(2)] Cons.IH [OF 2 Cons.prems(2)] r
  show ?case by (simp add: pkg)
qed

lemma addModelAsInput_exists:
  assumes "closedStore p" "templateRanked p rk"
    "list_all (\<lambda>pr. inStore p (prop_type pr)) (model_properties model)"
  shows "\<exists>n r. addModelAsInput n p model st = Some r"
proof (cases "\<exists>param i. model_properties model = [param] \<and> prop_type param = ModelT i")
  case True
  then obtain param i where param: "model_properties model = [param]" "prop_type param = ModelT i"
    by blast
  with assms(3) have i: "i < length (models p)" by (simp add: inStore_def)
  from visitType_terminates [OF assms(1,2) i] obtain n st1 where
    "visitType n p i st = Some st1" by blast
  with param i have "addModelAsInput n p model st = Some (ref (model_name (models p ! i)), st1)"
    by (simp add: addModelAsInput_def lookup_model_def)
  then show ?thesis by blast
next
  case False
  then have "addModelAsInput 0 p model st \<noteq> None"
    by (auto simp: addModelAsInput_def split: list.splits cadl_type.splits)
  then show ?thesis by blast
qed

lemma addReturnType_exists:
  assumes "closedStore p" "templateRanked p rk" "inStore p t"
  shows "\<exists>n r. addReturnType n p t st = Some r"
proof (cases t)
  case (ModelT i)
  with assms(3) have i: "i < length (models p)" by (simp add: inStore_def)
  from visitType_terminates [OF assms(1,2) i] obtain n st1 where
    "visitType n p i st = Some st1" by blast
  with ModelT i have "addReturnType n p t st = Some (ref (model_name (models p ! i)), st1)"
    by (simp add: addReturnType_def lookup_model_def)
  then show ?thesis by blast
next
  case (OtherT k)
  then have "addReturnType 0 p t st \<noteq> None" by (simp add: addReturnType_def)
  then show ?thesis by blast
qed

lemma toMethodFromOperation_exists:
  assumes "closedStore p" "templateRanked p rk" "closedOperation p operation"
  shows "\<exists>n r. toMethodFromOperation n p operation st = Some r"
proof -
  from assms(3) have params: "list_all (\<lambda>pr. inStore p (prop_type pr))
      (model_properties (op_parameters operation))"
    and ret: "inStore p (op_returnType operation)"
    by (simp_all add: closedOperation_def)
  from addModelAsInput_exists [OF assms(1,2) params] obtain n1 input st1 where
    1: "addModelAsInput n1 p (op_parameters operation) st = Some (input, st1)"
    by (metis surj_pair)
  from addReturnType_exists [OF assms(1,2) ret] obtain n2 returns st2 where
    2: "addReturnType n2 p (op_returnType operation) st1 = Some (returns, st2)"
    by (metis surj_pair)
  have "addModelAsInput (max n1 n2) p (op_parameters operation) st = Some (input, st1)"
    "addReturnType (max n1 n2) p (op_returnType operation) st1 = Some (returns, st2)"
    by (rule addModelAsInput_mono [OF 1], simp) (rule addReturnType_mono [OF 2], simp)
  then have "toMethodFromOperation (max n1 n2) p operation st \<noteq> None"
    by (simp add: toMethodFromOperation_def)
  then show ?thesis by blast
qed

lemma toMethods_exists:
  assumes "closedStore p" "templateRanked p rk"
  shows "list_all (closedOperation p) operations \<Longrightarrow> \<exists>n r. toMethods n p operations st = Some r"
proof (induction operations arbitrary: st)
  case Nil
  have "toMethods 0 p [] st = Some ([], st)" by simp
  then show ?case by blast
next
  case (Cons operation operations)
  from Cons.prems have op: "closedOperation p operation"
    and ops: "list_all (closedOperation p) operations" by simp_all
  from toMethodFromOperation_exists [OF assms op] obtain n1 m st1 where
    1: "toMethodFromOperation n1 p operation st = Some (m, st1)" by (metis surj_pair)
  from Cons.IH [OF ops] obtain n2 ms st2 where
    2: "toMethods n2 p operations st1 = Some (ms, st2)" by (metis surj_pair)
  have "toMethodFromOperation (max n1 n2) p operation st = Some (m, st1)"
    "toMethods (max n1 n2) p operations st1 = Some (ms, st2)"
    by (rule toMethodFromOperation_mono [OF 1], simp) (rule toMethods_mono [OF 2], simp)
  then have "toMethods (max n1 n2) p (operation # operations) st = Some (m # ms, st2)"
    by simp
  then show ?case by blast
qed

lemma addServices_exists:
  assumes "closedStore p" "templateRanked p rk"
  shows "list_all (\<lambda>iface. list_all (closedOperation p) (iface_operations iface)) ifaces
    \<Longrightarrow> \<exists>n r. addServices n p ifaces st = Some r"
proof (induction ifaces arbitrary: st)
  case Nil
  have "addServices 0 p [] st = Some st" by simp
  then show ?case by blast
next
  case (Cons iface ifaces)
  from Cons.prems have ops: "list_all (closedOperation p) (iface_operations iface)"
    and rest: "list_all (\<lambda>iface. list_all (closedOperation p) (iface_operations iface)) ifaces"
    by simp_all
  from toMethods_exists [OF assms ops] obtain n1 ms st1 where
    1: "toMethods n1 p (iface_operations iface) st = Some (ms, st1)" by (metis surj_pair)
  let ?st = "st1\<lparr>declarations := declarations st1 @ [Service (iface_name iface) ms]\<rparr>"
  from Cons.IH [OF rest] obtain n2 r where
    2: "addServices n2 p ifaces ?st = Some r" by blast
  have "toMethods (max n1 n2) p (iface_operations iface) st = Some (ms, st1)"
    "addServices (max n1 n2) p ifaces ?st = Some r"
    by (rule toMethods_mono [OF 1], simp) (rule addServices_mono [OF 2], simp)
  then have "addServices (max n1 n2) p (iface # ifaces) st = Some r"
    by simp
  then show ?case by blast
qed

lemma filesFromPackages_exists:
  assumes "closedStore p" "templateRanked p rk"
  shows "list_all (\<lambda>(ns, name).
        list_all (\<lambda>iface. list_all (closedOperation p) (iface_operations iface))
          (recursiveAddInterfaces p ns [])) pkgs
    \<Longrightarrow> \<exists>n files ds'. filesFromPackages n p pkgs ds = Some (files, ds')"
proof (induction pkgs arbitrary: ds)
  case Nil
  have "filesFromPackages 0 p [] ds = Some ([], ds)" by simp
  then show ?case by blast
next
  case (Cons pkg pkgs)
  obtain ns name where pkg: "pkg = (ns, name)" by (cases pkg)
  from Cons.prems pkg
  have ifaces: "list_all (\<lambda>iface. list_all (closedOperation p) (iface_operations iface))
      (recursiveAddInterfaces p ns [])"
    and rest: "list_all (\<lambda>(ns, name).
        list_all (\<lambda>iface. list_all (closedOperation p) (iface_operations iface))
          (recursiveAddInterfaces p ns [])) pkgs"
    by simp_all
  from addServices_exists [OF assms ifaces] obtain n1 st1 where
    "addServices n1 p (recursiveAddInterfaces p ns [])
       \<lparr>visitedTypes = [], declarations = [], diags = ds\<rparr> = Some st1" by blast
  then have 1: "declarationsFromNamespace n1 p ns ds = Some (declarations st1, diags st1)"
    by (simp add: declarationsFromNamespace_def runNamespace_def)
  from Cons.IH [OF rest] obtain n2 files ds2 where
    2: "filesFromPackages n2 p pkgs (diags st1) = Some (files, ds2)" by blast
  have "declarationsFromNamespace (max n1 n2) p ns ds = Some (declarations st1, diags st1)"
    "filesFromPackages (max n1 n2) p pkgs (diags st1) = Some (files, ds2)"
    by (rule declarationsFromNamespace_mono [OF 1], simp)
       (rule filesFromPackages_mono [OF 2], simp)
  then have "filesFromPackages (max n1 n2) p (pkg # pkgs) ds
      = Some (\<lparr>file_package = Some name, file_declarations = declarations st1\<rparr> # files, ds2)"
    by (simp add: pkg)
  then show ?case by blast
qed

text \<open>
  C1. On a well-formed program the lowering pass terminates, whatever cycles the
  properties of its models form: for every model of the store \<open>visitType\<close> returns from
  every state, and \<open>cadlToProto\<close> returns its files. The visited set is what makes the
  induction go through: \<open>visitType\<close> marks the model before \<open>toMessage\<close> runs, so each
  descent into the fields of a model leaves one model fewer to visit.
\<close>

theorem C1_lowering_terminates:
  assumes "closedStore p" "closedPackages p" "templateRanked p rk"
  shows "(m < length (models p) \<longrightarrow> (\<exists>n st'. visitType n p m st = Some st'))
       \<and> (\<exists>n files ds. cadlToProto n p = Some (files, ds))"
  using visitType_terminates [OF assms(1,3), of m st]
    filesFromPackages_exists [OF assms(1,3), of "packages p" "diagnostics p"] assms(2)
  by (auto simp: cadlToProto_def closedPackages_def)

lemma greeter_closedStore: "closedStore greeterProgram"
  by code_simp

lemma greeter_closedPackages: "closedPackages greeterProgram"
  by code_simp

lemma greeter_templateRanked: "templateRanked greeterProgram greeterRank"
  by code_simp

theorem C1_lowering_terminates_witness:
  "closedStore greeterProgram \<and> closedPackages greeterProgram
   \<and> templateRanked greeterProgram greeterRank
   \<and> 3 < length (models greeterProgram)
   \<and> (\<exists>n st'. visitType n greeterProgram 3 emptyState = Some st')
   \<and> (\<exists>n files ds. cadlToProto n greeterProgram = Some (files, ds))"
proof -
  have len: "3 < length (models greeterProgram)"
    by (simp add: greeterProgram_def greeterModels_def)
  from C1_lowering_terminates [OF greeter_closedStore greeter_closedPackages
      greeter_templateRanked, of 3 emptyState] len
  show ?thesis
    using greeter_closedStore greeter_closedPackages greeter_templateRanked by blast
qed

subsection \<open>Methods\<close>

lemma visitType_visited:
  assumes "visitType n p m st = Some st'"
  shows "m \<in> set (visitedTypes st')"
proof (cases n)
  case 0
  with assms show ?thesis by simp
next
  case (Suc k)
  show ?thesis
  proof (cases "m \<in> set (visitedTypes st)")
    case True
    with assms Suc show ?thesis by simp
  next
    case False
    with assms Suc obtain msg st1 where
      run: "toMessage k p m (st\<lparr>visitedTypes := visitedTypes st @ [m]\<rparr>) = Some (msg, st1)"
      and st': "st' = st1\<lparr>declarations := declarations st1 @ [msg]\<rparr>"
      by (auto split: option.splits)
    from effects [THEN conjunct2, THEN conjunct1, rule_format, OF run]
    have "m \<in> set (visitedTypes st1)" by (auto simp: effect_def)
    with st' show ?thesis by simp
  qed
qed

lemma effect_visited: "effect p st st' \<Longrightarrow> set (visitedTypes st) \<subseteq> set (visitedTypes st')"
  by (auto simp: effect_def)

lemma addModelAsInput_result:
  assumes "addModelAsInput n p model st = Some (r, st')"
  shows "effect p st st' \<and> r = referenceTo p (inputModel model)
       \<and> visitedOption st' (inputModel model)"
proof (cases "inputModel model")
  case None
  with assms show ?thesis
    by (auto simp: addModelAsInput_def inputModel_def referenceTo_def visitedOption_def
        effect_report split: list.splits cadl_type.splits)
next
  case (Some i)
  then obtain param where param: "model_properties model = [param]" "prop_type param = ModelT i"
    by (auto simp: inputModel_def split: list.splits cadl_type.splits)
  with assms obtain m where run: "visitType n p i st = Some st'"
    and m: "lookup_model p i = Some m" and r: "r = ref (model_name m)"
    by (auto simp: addModelAsInput_def split: option.splits)
  from m have "model_name m = modelName p i"
    by (auto simp: lookup_model_def modelName_def split: if_splits)
  with Some r visitType_effect [OF run] visitType_visited [OF run] show ?thesis
    by (simp add: referenceTo_def visitedOption_def)
qed

lemma addReturnType_result:
  assumes "addReturnType n p t st = Some (r, st')"
  shows "effect p st st' \<and> r = referenceTo p (returnModel t)
       \<and> visitedOption st' (returnModel t)"
proof (cases t)
  case (OtherT k)
  with assms show ?thesis
    by (auto simp: addReturnType_def returnModel_def referenceTo_def visitedOption_def
        effect_report)
next
  case (ModelT i)
  with assms obtain m where run: "visitType n p i st = Some st'"
    and m: "lookup_model p i = Some m" and r: "r = ref (model_name m)"
    by (auto simp: addReturnType_def split: option.splits)
  from m have "model_name m = modelName p i"
    by (auto simp: lookup_model_def modelName_def split: if_splits)
  with ModelT r visitType_effect [OF run] visitType_visited [OF run] show ?thesis
    by (simp add: referenceTo_def visitedOption_def returnModel_def)
qed

lemma visitedOption_effect:
  "visitedOption st model \<Longrightarrow> effect p st st' \<Longrightarrow> visitedOption st' model"
  by (cases model) (auto simp: visitedOption_def dest: effect_visited)

lemma toMethodFromOperation_result:
  assumes "toMethodFromOperation n p operation st = Some (m, st')"
  shows "effect p st st' \<and> m = methodOf p operation
       \<and> visitedOption st' (inputModel (op_parameters operation))
       \<and> visitedOption st' (returnModel (op_returnType operation))"
proof -
  from assms obtain input st1 returns where
    1: "addModelAsInput n p (op_parameters operation) st = Some (input, st1)"
    and 2: "addReturnType n p (op_returnType operation) st1 = Some (returns, st')"
    and m: "m = \<lparr>method_name = op_name operation, method_input = input,
                  method_returns = returns\<rparr>"
    by (auto simp: toMethodFromOperation_def split: option.splits)
  from addModelAsInput_result [OF 1] addReturnType_result [OF 2] m show ?thesis
    by (auto simp: methodOf_def intro: effect_trans visitedOption_effect)
qed

lemma toMethods_result:
  "toMethods n p operations st = Some (ms, st') \<Longrightarrow>
   effect p st st' \<and> ms = map (methodOf p) operations
   \<and> list_all (\<lambda>operation. visitedOption st' (inputModel (op_parameters operation))
                    \<and> visitedOption st' (returnModel (op_returnType operation))) operations"
proof (induction operations arbitrary: st ms)
  case Nil
  then show ?case by (simp add: effect_refl)
next
  case (Cons operation operations)
  from Cons.prems obtain m st1 ms' where
    1: "toMethodFromOperation n p operation st = Some (m, st1)"
    and 2: "toMethods n p operations st1 = Some (ms', st')" and ms: "ms = m # ms'"
    by (auto split: option.splits)
  from toMethodFromOperation_result [OF 1] Cons.IH [OF 2] ms show ?case
    by (auto intro: effect_trans visitedOption_effect)
qed

subsection \<open>The declarations of a file\<close>

lemma wellOrdered_append:
  "wellOrdered before (xs @ ys) = (wellOrdered before xs \<and> wellOrdered (before @ xs) ys)"
  by (induction before xs rule: wellOrdered.induct) auto

lemma wellOrdered_messages: "serviceDeclarations msgs = [] \<Longrightarrow> wellOrdered before msgs"
  by (induction before msgs rule: wellOrdered.induct) auto

lemma wellOrdered_nth:
  "wellOrdered before ds \<Longrightarrow> j < length ds \<Longrightarrow> ds ! j = Service s ms \<Longrightarrow> m \<in> set ms \<Longrightarrow>
   declared (before @ take j ds) (method_input m)
   \<and> declared (before @ take j ds) (method_returns m)"
proof (induction before ds arbitrary: j rule: wellOrdered.induct)
  case (1 before)
  then show ?case by simp
next
  case (2 before name fs ds)
  from "2.prems"(2,3) obtain k where j: "j = Suc k" by (cases j) auto
  with "2.prems" "2.IH" [of k] show ?case by simp
next
  case (3 before name ms' ds)
  show ?case
  proof (cases j)
    case 0
    with "3.prems" show ?thesis by (auto simp: list_all_iff)
  next
    case (Suc k)
    with "3.prems" "3.IH" [of k] show ?thesis by simp
  qed
qed

lemma messageNames_set:
  "name \<in> set (messageNames ds) \<longleftrightarrow> (\<exists>fs. Message name fs \<in> set ds)"
  by (induction ds rule: messageNames.induct) auto

lemma declared_before:
  assumes "declared (take j ds) r" "r \<noteq> ref unreachable"
  shows "\<exists>i<j. \<exists>name fs. r = PRef name \<and> ds ! i = Message name fs"
proof -
  from assms obtain name fs where r: "r = PRef name"
    and "Message name fs \<in> set (take j ds)"
    by (auto simp: declared_def messageNames_set)
  then obtain i where "i < length (take j ds)" "take j ds ! i = Message name fs"
    by (auto simp: in_set_conv_nth)
  then have "i < j" "ds ! i = Message name fs" by simp_all
  with r show ?thesis by blast
qed

lemma declared_append: "declared ds r \<Longrightarrow> declared (ds @ ds2) r"
  by (auto simp: declared_def)

lemma fileInvariant_effect:
  assumes "fileInvariant p st" "effect p st st'"
  shows "fileInvariant p st'"
  using assms by (auto simp: fileInvariant_def effect_def)

lemma fileInvariant_declared:
  assumes "fileInvariant p st" "visitedOption st model"
  shows "declared (declarations st) (referenceTo p model)"
proof (cases model)
  case None
  then show ?thesis by (simp add: declared_def referenceTo_def)
next
  case (Some i)
  with assms(2) have "modelName p i \<in> set (map (modelName p) (visitedTypes st))"
    by (simp add: visitedOption_def)
  also from assms(1) have "set (map (modelName p) (visitedTypes st))
      = set (messageNames (declarations st))"
    by (metis fileInvariant_def set_mset_mset)
  finally show ?thesis using Some by (auto simp: declared_def referenceTo_def ref_def)
qed

lemma visitedOption_mono:
  "visitedOption st model \<Longrightarrow> set (visitedTypes st) \<subseteq> set (visitedTypes st')
   \<Longrightarrow> visitedOption st' model"
  by (cases model) (auto simp: visitedOption_def)

lemma addServices_result:
  "addServices n p ifaces st = Some st' \<Longrightarrow> fileInvariant p st
   \<Longrightarrow> wellOrdered [] (declarations st) \<Longrightarrow>
   fileInvariant p st' \<and> wellOrdered [] (declarations st')
   \<and> serviceDeclarations (declarations st')
       = serviceDeclarations (declarations st) @ map (serviceOf p) ifaces
   \<and> set (visitedTypes st) \<subseteq> set (visitedTypes st')
   \<and> list_all (\<lambda>iface. list_all (\<lambda>operation.
          visitedOption st' (inputModel (op_parameters operation))
          \<and> visitedOption st' (returnModel (op_returnType operation)))
        (iface_operations iface)) ifaces"
proof (induction ifaces arbitrary: st)
  case Nil
  then show ?case by simp
next
  case (Cons iface ifaces)
  from Cons.prems(1) obtain ms st1 where
    1: "toMethods n p (iface_operations iface) st = Some (ms, st1)"
    and 2: "addServices n p ifaces
          (st1\<lparr>declarations := declarations st1 @ [Service (iface_name iface) ms]\<rparr>) = Some st'"
    by (auto split: option.splits)
  let ?st = "st1\<lparr>declarations := declarations st1 @ [Service (iface_name iface) ms]\<rparr>"
  from toMethods_result [OF 1] have e: "effect p st st1"
    and ms: "ms = map (methodOf p) (iface_operations iface)"
    and vis: "list_all (\<lambda>operation. visitedOption st1 (inputModel (op_parameters operation))
                    \<and> visitedOption st1 (returnModel (op_returnType operation)))
                (iface_operations iface)"
    by simp_all
  from fileInvariant_effect [OF Cons.prems(2) e] have inv1: "fileInvariant p st1" .
  then have inv: "fileInvariant p ?st" by (simp add: fileInvariant_def)
  from e obtain msgs where decls: "declarations st1 = declarations st @ msgs"
    and msgs: "serviceDeclarations msgs = []"
    by (auto simp: effect_def)
  have refs: "list_all (\<lambda>m. declared (declarations st1) (method_input m)
                \<and> declared (declarations st1) (method_returns m)) ms"
    using vis fileInvariant_declared [OF inv1]
    by (auto simp: ms list_all_iff methodOf_def)
  from Cons.prems(3) msgs refs have ord: "wellOrdered [] (declarations ?st)"
    by (simp add: decls wellOrdered_append wellOrdered_messages)
  have sub: "set (visitedTypes st) \<subseteq> set (visitedTypes ?st)"
    using effect_visited [OF e] by simp
  from Cons.IH [OF 2 inv ord]
  have res: "fileInvariant p st'" "wellOrdered [] (declarations st')"
    "serviceDeclarations (declarations st')
       = serviceDeclarations (declarations ?st) @ map (serviceOf p) ifaces"
    "set (visitedTypes ?st) \<subseteq> set (visitedTypes st')"
    "list_all (\<lambda>iface. list_all (\<lambda>operation.
          visitedOption st' (inputModel (op_parameters operation))
          \<and> visitedOption st' (returnModel (op_returnType operation)))
        (iface_operations iface)) ifaces"
    by simp_all
  have here: "list_all (\<lambda>operation.
          visitedOption st' (inputModel (op_parameters operation))
          \<and> visitedOption st' (returnModel (op_returnType operation)))
        (iface_operations iface)"
    using vis res(4) visitedOption_mono [of st1 _ st']
    by (simp add: list_all_iff)
  from res sub here show ?case
    by (auto simp: decls msgs ms serviceOf_def)
qed

lemma runNamespace_result:
  assumes "runNamespace n p ns ds = Some st"
  shows "fileInvariant p st \<and> wellOrdered [] (declarations st)
   \<and> serviceDeclarations (declarations st) = map (serviceOf p) (recursiveAddInterfaces p ns [])
   \<and> list_all (\<lambda>iface. list_all (\<lambda>operation.
          visitedOption st (inputModel (op_parameters operation))
          \<and> visitedOption st (returnModel (op_returnType operation)))
        (iface_operations iface)) (recursiveAddInterfaces p ns [])"
proof -
  let ?st = "\<lparr>visitedTypes = [], declarations = [], diags = ds\<rparr>"
  have "fileInvariant p ?st" "wellOrdered [] (declarations ?st)"
    by (simp_all add: fileInvariant_def)
  from addServices_result [OF assms [unfolded runNamespace_def] this] show ?thesis
    by simp
qed

subsection \<open>Collecting the services of a package\<close>













subsection \<open>Files, services and messages\<close>


lemma closedPackages_namespace:
  assumes "closedPackages p" "(ns, name) \<in> set (packages p)"
  shows "closedNamespace p ns"
  using assms by (auto simp: closedPackages_def closedNamespace_def list_all_iff)

lemma filesFromPackages_files:
  "filesFromPackages n p pkgs ds = Some (files, ds') \<Longrightarrow> f \<in> set files \<Longrightarrow>
   \<exists>ns name ds1 st. (ns, name) \<in> set pkgs \<and> runNamespace n p ns ds1 = Some st
     \<and> f = \<lparr>file_package = Some name, file_declarations = declarations st\<rparr>"
proof (induction pkgs arbitrary: ds files)
  case Nil
  then show ?case by simp
next
  case (Cons pkg pkgs)
  obtain ns name where pkg: "pkg = (ns, name)" by (cases pkg)
  from Cons.prems(1) obtain decls ds1 rest where
    1: "declarationsFromNamespace n p ns ds = Some (decls, ds1)"
    and 2: "filesFromPackages n p pkgs ds1 = Some (rest, ds')"
    and files: "files = \<lparr>file_package = Some name, file_declarations = decls\<rparr> # rest"
    by (auto simp: pkg split: option.splits)
  from 1 obtain st where st: "runNamespace n p ns ds = Some st" and decls: "decls = declarations st"
    by (auto simp: declarationsFromNamespace_def split: option.splits)
  show ?case
  proof (cases "f \<in> set rest")
    case True
    from Cons.IH [OF 2 True] show ?thesis by (auto simp: pkg)
  next
    case False
    with Cons.prems(2) files have "f = \<lparr>file_package = Some name, file_declarations = decls\<rparr>"
      by simp
    with st decls show ?thesis
      by (intro exI [of _ ns] exI [of _ name] exI [of _ ds] exI [of _ st]) (simp add: pkg)
  qed
qed









text \<open>
  C10. On a well-formed program the pass returns its files, and in every file it returns,
  for every service declaration and every input or return reference of its methods that
  is not the placeholder, a message of that name stands at an earlier position of the
  declarations of the file.
\<close>

theorem C10_messages_before_services:
  "(closedStore p \<and> closedPackages p \<and> templateRanked p rk
      \<longrightarrow> (\<exists>n files ds. cadlToProto n p = Some (files, ds)))
   \<and> (cadlToProto n p = Some (files, ds) \<and> f \<in> set files
        \<and> j < length (file_declarations f) \<and> file_declarations f ! j = Service s ms
        \<and> m \<in> set ms \<and> (r = method_input m \<or> r = method_returns m) \<and> r \<noteq> ref unreachable
      \<longrightarrow> (\<exists>i<j. \<exists>name fs. r = PRef name \<and> file_declarations f ! i = Message name fs))"
proof (intro conjI impI)
  assume "closedStore p \<and> closedPackages p \<and> templateRanked p rk"
  then show "\<exists>n files ds. cadlToProto n p = Some (files, ds)"
    using filesFromPackages_exists [of p rk "packages p" "diagnostics p"]
    by (simp add: cadlToProto_def closedPackages_def)
next
  assume a: "cadlToProto n p = Some (files, ds) \<and> f \<in> set files
        \<and> j < length (file_declarations f) \<and> file_declarations f ! j = Service s ms
        \<and> m \<in> set ms \<and> (r = method_input m \<or> r = method_returns m) \<and> r \<noteq> ref unreachable"
  then obtain ns name ds1 st where run: "runNamespace n p ns ds1 = Some st"
    and f: "file_declarations f = declarations st"
    using filesFromPackages_files [of n p "packages p" "diagnostics p" files ds f]
    by (auto simp: cadlToProto_def)
  from runNamespace_result [OF run] have "wellOrdered [] (declarations st)" by simp
  from wellOrdered_nth [OF this, of j s ms m] a f
  have "declared (take j (declarations st)) (method_input m)"
    "declared (take j (declarations st)) (method_returns m)"
    by simp_all
  with a have "declared (take j (declarations st)) r" by auto
  from declared_before [OF this] a f
  show "\<exists>i<j. \<exists>name fs. r = PRef name \<and> file_declarations f ! i = Message name fs"
    by simp
qed

subsection \<open>The Greeter example\<close>

lemma greeter_output:
  "cadlToProto 12 greeterProgram
     = Some ([\<lparr>file_package = Some ''com.azure.greeter'',
                file_declarations = greeterDeclarations\<rparr>,
              \<lparr>file_package = Some ''com.azure.inner'',
                file_declarations = innerDeclarations\<rparr>], [])"
  by code_simp







theorem C10_messages_before_services_witness:
  "closedStore greeterProgram \<and> closedPackages greeterProgram
   \<and> templateRanked greeterProgram greeterRank
   \<and> (\<exists>n files ds. cadlToProto n greeterProgram = Some (files, ds))
   \<and> cadlToProto 12 greeterProgram
       = Some ([\<lparr>file_package = Some ''com.azure.greeter'',
                  file_declarations = greeterDeclarations\<rparr>,
                \<lparr>file_package = Some ''com.azure.inner'',
                  file_declarations = innerDeclarations\<rparr>], [])
   \<and> greeterDeclarations ! 6
       = Service ''Echo'' [\<lparr>method_name = ''Echo'', method_input = PRef ''Ping'',
                            method_returns = PRef ''Pong''\<rparr>]
   \<and> (\<exists>i<6. \<exists>name fs. PRef ''Ping'' = PRef name \<and> greeterDeclarations ! i = Message name fs)
   \<and> (\<exists>i<6. \<exists>name fs. PRef ''Pong'' = PRef name \<and> greeterDeclarations ! i = Message name fs)"
proof -
  let ?f = "\<lparr>file_package = Some ''com.azure.greeter'', file_declarations = greeterDeclarations\<rparr>"
  let ?g = "\<lparr>file_package = Some ''com.azure.inner'', file_declarations = innerDeclarations\<rparr>"
  let ?m = "\<lparr>method_name = ''Echo'', method_input = PRef ''Ping'', method_returns = PRef ''Pong''\<rparr>"
  note wf = greeter_closedStore greeter_closedPackages greeter_templateRanked
  have at: "greeterDeclarations ! 6 = Service ''Echo'' [?m]"
    by (simp add: greeterDeclarations_def)
  have len: "6 < length (file_declarations ?f)"
    by (simp add: greeterDeclarations_def)
  have f: "?f \<in> set [?f, ?g]" by simp
  have ne: "PRef ''Ping'' \<noteq> ref unreachable" "PRef ''Pong'' \<noteq> ref unreachable"
    by (simp_all add: ref_def unreachable_def)
  note T = C10_messages_before_services [of greeterProgram greeterRank 12 "[?f, ?g]" "[]" ?f 6
      "''Echo''" "[?m]" ?m]
  from T wf have ex: "\<exists>n files ds. cadlToProto n greeterProgram = Some (files, ds)"
    by blast
  from T [of "PRef ''Ping''"] greeter_output f len at ne(1)
  have "\<exists>i<6. \<exists>name fs. PRef ''Ping'' = PRef name \<and> file_declarations ?f ! i = Message name fs"
    by simp
  then have a: "\<exists>i<6. \<exists>name fs. PRef ''Ping'' = PRef name
      \<and> greeterDeclarations ! i = Message name fs"
    by simp
  from T [of "PRef ''Pong''"] greeter_output f len at ne(2)
  have "\<exists>i<6. \<exists>name fs. PRef ''Pong'' = PRef name \<and> file_declarations ?f ! i = Message name fs"
    by simp
  then have b: "\<exists>i<6. \<exists>name fs. PRef ''Pong'' = PRef name
      \<and> greeterDeclarations ! i = Message name fs"
    by simp
  from wf ex greeter_output at a b show ?thesis
    by (intro conjI)
qed

end
